theory Spec2Isabelle
  imports Main "HOL-Library.Multiset"
begin

section \<open>The intermediate representation\<close>

text \<open>
  The pass of \<^verbatim>\<open>lib/SILOptimizer/Transforms/TempRValueElimination.cpp\<close> works on SIL: a
  function is a list of basic blocks, a basic block an ordered list of instructions.
  An instruction is identified by a number (the model of its address), a value by the
  instruction that defines it or by the function argument it is. Only the instruction
  kinds the pass distinguishes carry their own constructor; every other kind is
  \<open>OtherInst\<close>, with its operands and whether it is a terminator.
\<close>

type_synonym inst_id = nat

datatype ownership_kind = OwnershipNone | Unowned | Owned | Guaranteed

datatype sil_value =
    InstResult inst_id
  | TokenResult inst_id
  | FunctionArgument nat ownership_kind

datatype access_kind = AccessInit | AccessRead | AccessModify | AccessDeinit

datatype load_qualifier = LoadUnqualified | LoadTake | LoadCopy | LoadTrivial

datatype store_qualifier = StoreUnqualified | StoreInit | StoreAssign | StoreTrivial

datatype existential_access = Immutable | Mutable

datatype convention = ConvGuaranteed | ConvOwned | ConvInout | ConvUnowned

datatype inst_kind =
    AllocStackInst bool bool bool
  | CopyAddrInst sil_value sil_value bool bool
  | StoreInst sil_value sil_value store_qualifier
  | LoadInst sil_value load_qualifier
  | LoadBorrowInst sil_value
  | EndBorrowInst sil_value
  | BranchInst "sil_value list"
  | BeginAccessInst sil_value access_kind
  | BeginUnpairedAccessInst sil_value sil_value
  | EndAccessInst sil_value
  | DestroyAddrInst sil_value
  | DeallocStackInst sil_value
  | MarkDependenceInst sil_value sil_value
  | ApplyInst sil_value "(sil_value \<times> convention) list"
  | TryApplyInst sil_value "(sil_value \<times> convention) list"
  | BeginApplyInst sil_value "(sil_value \<times> convention) list"
  | PartialApplyInst bool sil_value "(sil_value \<times> convention) list"
  | YieldInst "(sil_value \<times> convention) list"
  | OpenExistentialAddrInst sil_value existential_access
  | UncheckedTakeEnumDataAddrInst sil_value bool
  | StructElementAddrInst sil_value
  | TupleElementAddrInst sil_value
  | UncheckedAddrCastInst sil_value
  | FixLifetimeInst sil_value
  | DestroyValueInst sil_value
  | CopyValueInst sil_value
  | OtherInst "sil_value list" bool

text \<open>
  The fields, in the order of the constructors' arguments:
  \<open>AllocStackInst isLexical hasDynamicLifetime isMoveOnly\<close>;
  \<open>CopyAddrInst src dest isTakeOfSrc isInitializationOfDest\<close>;
  \<open>StoreInst src dest qualifier\<close>; \<open>MarkDependenceInst value base\<close>;
  \<open>BeginUnpairedAccessInst source buffer\<close>;
  the call-like instructions carry the callee and each argument with its convention,
  \<open>PartialApplyInst\<close> first whether it is on the stack;
  \<open>UncheckedTakeEnumDataAddrInst operand b\<close> has \<open>b\<close> true when the operand's type is
  an \<open>Optional\<close>.
\<close>

record inst =
  instId :: inst_id
  kind :: inst_kind
  typeDependentOperands :: "sil_value list"

record sil_function =
  blocks :: "inst list list"
  hasOwnership :: bool

text \<open>
  An operand (a use) knows its user, its number among the user's operands and the
  value it holds.
\<close>

record operand =
  opUser :: inst
  opNumber :: nat
  opValue :: sil_value

fun operandsOf :: "inst_kind \<Rightarrow> sil_value list" where
  "operandsOf (AllocStackInst _ _ _) = []"
| "operandsOf (CopyAddrInst src dest _ _) = [src, dest]"
| "operandsOf (StoreInst src dest _) = [src, dest]"
| "operandsOf (LoadInst a _) = [a]"
| "operandsOf (LoadBorrowInst a) = [a]"
| "operandsOf (EndBorrowInst v) = [v]"
| "operandsOf (BranchInst args) = args"
| "operandsOf (BeginAccessInst a _) = [a]"
| "operandsOf (BeginUnpairedAccessInst a b) = [a, b]"
| "operandsOf (EndAccessInst v) = [v]"
| "operandsOf (DestroyAddrInst a) = [a]"
| "operandsOf (DeallocStackInst a) = [a]"
| "operandsOf (MarkDependenceInst v b) = [v, b]"
| "operandsOf (ApplyInst callee args) = callee # map fst args"
| "operandsOf (TryApplyInst callee args) = callee # map fst args"
| "operandsOf (BeginApplyInst callee args) = callee # map fst args"
| "operandsOf (PartialApplyInst _ callee args) = callee # map fst args"
| "operandsOf (YieldInst args) = map fst args"
| "operandsOf (OpenExistentialAddrInst a _) = [a]"
| "operandsOf (UncheckedTakeEnumDataAddrInst a _) = [a]"
| "operandsOf (StructElementAddrInst a) = [a]"
| "operandsOf (TupleElementAddrInst a) = [a]"
| "operandsOf (UncheckedAddrCastInst a) = [a]"
| "operandsOf (FixLifetimeInst a) = [a]"
| "operandsOf (DestroyValueInst v) = [v]"
| "operandsOf (CopyValueInst v) = [v]"
| "operandsOf (OtherInst ops _) = ops"

definition allOperands :: "inst \<Rightarrow> sil_value list" where
  "allOperands i = operandsOf (kind i) @ typeDependentOperands i"

definition isTypeDependentOperand :: "inst \<Rightarrow> nat \<Rightarrow> bool" where
  "isTypeDependentOperand i n = (length (operandsOf (kind i)) \<le> n)"

definition allInsts :: "sil_function \<Rightarrow> inst list" where
  "allInsts f = concat (blocks f)"

definition lookupInst :: "sil_function \<Rightarrow> inst_id \<Rightarrow> inst option" where
  "lookupInst f i = find (\<lambda>x. instId x = i) (allInsts f)"

text \<open>\<open>getParent\<close>: the index of the block that holds the instruction.\<close>

fun findBlock :: "inst list list \<Rightarrow> inst_id \<Rightarrow> nat \<Rightarrow> nat option" where
  "findBlock [] i n = None"
| "findBlock (b # bs) i n =
     (if i \<in> instId ` set b then Some n else findBlock bs i (Suc n))"

definition getParent :: "sil_function \<Rightarrow> inst_id \<Rightarrow> nat option" where
  "getParent f i = findBlock (blocks f) i 0"

text \<open>The use list of a value: every operand of the function that holds it.\<close>

definition usesIn :: "sil_value \<Rightarrow> inst \<Rightarrow> operand list" where
  "usesIn v i =
     map (\<lambda>n. \<lparr>opUser = i, opNumber = n, opValue = v\<rparr>)
       (filter (\<lambda>n. allOperands i ! n = v) [0..<length (allOperands i)])"

definition getUses :: "sil_function \<Rightarrow> sil_value \<Rightarrow> operand list" where
  "getUses f v = concat (map (usesIn v) (allInsts f))"

text \<open>The instructions of a block strictly before and strictly after a given one.\<close>

definition blockOf :: "sil_function \<Rightarrow> inst_id \<Rightarrow> inst list" where
  "blockOf f i = (case getParent f i of None \<Rightarrow> [] | Some b \<Rightarrow> blocks f ! b)"

definition instsBefore :: "sil_function \<Rightarrow> inst_id \<Rightarrow> inst list" where
  "instsBefore f i = takeWhile (\<lambda>x. instId x \<noteq> i) (blockOf f i)"

definition instsAfter :: "sil_function \<Rightarrow> inst_id \<Rightarrow> inst list" where
  "instsAfter f i = tl (dropWhile (\<lambda>x. instId x \<noteq> i) (blockOf f i))"

fun isTermInst :: "inst_kind \<Rightarrow> bool" where
  "isTermInst (BranchInst _) = True"
| "isTermInst (TryApplyInst _ _) = True"
| "isTermInst (YieldInst _) = True"
| "isTermInst (OtherInst _ t) = t"
| "isTermInst _ = False"

fun isFullApplySite :: "inst_kind \<Rightarrow> bool" where
  "isFullApplySite (ApplyInst _ _) = True"
| "isFullApplySite (TryApplyInst _ _) = True"
| "isFullApplySite (BeginApplyInst _ _) = True"
| "isFullApplySite _ = False"

fun isYieldInst :: "inst_kind \<Rightarrow> bool" where
  "isYieldInst (YieldInst _) = True"
| "isYieldInst _ = False"

section \<open>The analyses the pass consults\<close>

text \<open>
  Alias analysis, the access-storage resolver and the value-lifetime analysis are not
  part of the file; the pass only queries them. They are parameters of the model.
  \<open>computeFrontier f def users\<close> is \<open>ValueLifetimeAnalysis(def, users).computeFrontier\<close>
  with \<open>DontModifyCFG\<close>: \<open>None\<close> when it fails, else the frontier instructions.
\<close>

record analyses =
  mayWriteToMemory :: "inst \<Rightarrow> sil_value \<Rightarrow> bool"
  isNoAlias :: "sil_value \<Rightarrow> sil_value \<Rightarrow> bool"
  accessStorageBase :: "sil_value \<Rightarrow> sil_value option"
  computeFrontier :: "sil_function \<Rightarrow> inst \<Rightarrow> inst list \<Rightarrow> inst_id list option"

section \<open>The modification checker\<close>

text \<open>
  \<open>InstructionSetWithSize\<close> is a list without repetitions: \<open>List.insert\<close> adds an
  element only when it is new, the size is the length.

  \<open>scanForLastUse\<close> is the loop of \<open>getLastUseWhileSourceIsNotModified\<close> over the
  instructions after the copy; \<open>None\<close> is the \<open>nullptr\<close> result.
\<close>

fun scanForLastUse ::
  "analyses \<Rightarrow> sil_value \<Rightarrow> inst_id list \<Rightarrow> nat \<Rightarrow> inst list \<Rightarrow> inst option" where
  "scanForLastUse aa copySrc useInsts numLoadsFound [] = None"
| "scanForLastUse aa copySrc useInsts numLoadsFound (i # rest) =
     (let n = (if instId i \<in> set useInsts then numLoadsFound + 1 else numLoadsFound) in
      if n = length useInsts then
        (if (isFullApplySite (kind i) \<or> isYieldInst (kind i)) \<and> mayWriteToMemory aa i copySrc
         then None else Some i)
      else if mayWriteToMemory aa i copySrc then None
      else scanForLastUse aa copySrc useInsts n rest)"

definition getLastUseWhileSourceIsNotModified ::
  "sil_function \<Rightarrow> inst \<Rightarrow> sil_value \<Rightarrow> inst_id list \<Rightarrow> analyses \<Rightarrow> inst option" where
  "getLastUseWhileSourceIsNotModified f copyInst copySrc useInsts aa =
     (if useInsts = [] then Some copyInst
      else scanForLastUse aa copySrc useInsts 0 (instsAfter f (instId copyInst)))"

section \<open>The use collector\<close>

text \<open>
  The result of a check that the source writes as a \<open>bool\<close>: \<open>Rejected\<close> is
  \<open>false\<close>, \<open>Accepted\<close> is \<open>true\<close> with what the check has computed, and
  \<open>NoReturn\<close> stands for a run that returns nothing: a failed assertion or cast, or
  a recursion that does not end.
\<close>

datatype 'a check = NoReturn | Rejected | Accepted 'a

fun argumentConvention :: "inst_kind \<Rightarrow> nat \<Rightarrow> convention option" where
  "argumentConvention (ApplyInst _ args) n =
     (if 1 \<le> n \<and> n - 1 < length args then Some (snd (args ! (n - 1))) else None)"
| "argumentConvention (TryApplyInst _ args) n =
     (if 1 \<le> n \<and> n - 1 < length args then Some (snd (args ! (n - 1))) else None)"
| "argumentConvention (BeginApplyInst _ args) n =
     (if 1 \<le> n \<and> n - 1 < length args then Some (snd (args ! (n - 1))) else None)"
| "argumentConvention (PartialApplyInst _ _ args) n =
     (if 1 \<le> n \<and> n - 1 < length args then Some (snd (args ! (n - 1))) else None)"
| "argumentConvention (YieldInst args) n =
     (if n < length args then Some (snd (args ! n)) else None)"
| "argumentConvention _ n = None"

fun isBeginApplyInst :: "inst_kind \<Rightarrow> bool" where
  "isBeginApplyInst (BeginApplyInst _ _) = True"
| "isBeginApplyInst _ = False"

text \<open>\<open>getEndAccesses\<close>: the users of a begin-access that are end-accesses.\<close>

definition getEndAccesses :: "sil_function \<Rightarrow> inst \<Rightarrow> inst list" where
  "getEndAccesses f beginAccess =
     filter (\<lambda>i. kind i = EndAccessInst (InstResult (instId beginAccess))) (allInsts f)"

text \<open>
  The loops \<^verbatim>\<open>for (x : xs) { if (x->getParent() != block) return false; loadInsts.insert(x); }\<close>
  over the end-accesses and over the users of a begin-apply's token.
\<close>

fun insertSameBlock ::
  "sil_function \<Rightarrow> nat option \<Rightarrow> inst list \<Rightarrow> inst_id list \<Rightarrow> inst_id list check" where
  "insertSameBlock f block [] loadInsts = Accepted loadInsts"
| "insertSameBlock f block (x # xs) loadInsts =
     (if getParent f (instId x) \<noteq> block then Rejected
      else insertSameBlock f block xs (List.insert (instId x) loadInsts))"

text \<open>
  Modelled from the spec: \<open>BorrowedValue::visitLocalScopeEndingUses\<close> is not in the source
  file. Section 4.1: every scope-ending use reachable from the produced borrow
  (end-borrow) must be in the same block and is recorded; a re-borrow (a branch)
  disqualifies. \<open>scopeEndingUses\<close> are the uses of the load-borrow that end its scope,
  \<open>visitEndScope\<close> is the closure of \<open>collectLoads\<close> run on each until it answers false.
\<close>

definition scopeEndingUses :: "sil_function \<Rightarrow> inst \<Rightarrow> operand list" where
  "scopeEndingUses f loadBorrow =
     filter (\<lambda>u. case kind (opUser u) of EndBorrowInst _ \<Rightarrow> True | BranchInst _ \<Rightarrow> True | _ \<Rightarrow> False)
       (getUses f (InstResult (instId loadBorrow)))"

fun visitEndScope ::
  "sil_function \<Rightarrow> nat option \<Rightarrow> operand list \<Rightarrow> inst_id list \<Rightarrow> inst_id list check" where
  "visitEndScope f block [] loadInsts = Accepted loadInsts"
| "visitEndScope f block (op # ops) loadInsts =
     (case kind (opUser op) of
        EndBorrowInst _ \<Rightarrow>
          (if getParent f (instId (opUser op)) \<noteq> block then Rejected
           else visitEndScope f block ops (List.insert (instId (opUser op)) loadInsts))
      | BranchInst _ \<Rightarrow> Rejected
      | _ \<Rightarrow> NoReturn)"

text \<open>
  \<open>collectLoads\<close> and the loops that call it on every use of a projection or of a
  mark-dependence. The recursion follows the def-use chains of the function, which
  nothing in the source bounds: the first argument is the depth still allowed, and
  \<open>NoReturn\<close> is the answer when it is used up. \<open>originalCopy\<close> is given by its
  identity and its destination.
\<close>

fun collectLoads ::
  "nat \<Rightarrow> sil_function \<Rightarrow> operand \<Rightarrow> inst_id \<Rightarrow> sil_value \<Rightarrow> inst_id list \<Rightarrow> inst_id list check"
and collectLoadsFromUses ::
  "nat \<Rightarrow> sil_function \<Rightarrow> operand list \<Rightarrow> inst_id \<Rightarrow> sil_value \<Rightarrow> inst_id list \<Rightarrow> inst_id list check"
where
  "collectLoads 0 f addressUse originalCopy copyDest loadInsts = NoReturn"
| "collectLoads (Suc depth) f addressUse originalCopy copyDest loadInsts =
     (let user = opUser addressUse;
          address = opValue addressUse;
          block = getParent f originalCopy;
          fromProjection = collectLoadsFromUses depth f
            (filter (\<lambda>u. \<not> isTypeDependentOperand (opUser u) (opNumber u))
               (getUses f (InstResult (instId user))))
            originalCopy copyDest loadInsts
      in
      if getParent f (instId user) \<noteq> block then Rejected
      else case kind user of
        BeginAccessInst _ accessKind \<Rightarrow>
          (if accessKind \<noteq> AccessRead then Rejected
           else insertSameBlock f block (getEndAccesses f user) loadInsts)
      | MarkDependenceInst _ base \<Rightarrow>
          (if base = address then Accepted loadInsts
           else collectLoadsFromUses depth f (getUses f (InstResult (instId user)))
                  originalCopy copyDest loadInsts)
      | PartialApplyInst isOnStack _ _ \<Rightarrow>
          (if \<not> isOnStack then Rejected
           else if argumentConvention (kind user) (opNumber addressUse) \<noteq> Some ConvGuaranteed
           then Rejected
           else Accepted (List.insert (instId user) loadInsts))
      | ApplyInst _ _ \<Rightarrow>
          (if argumentConvention (kind user) (opNumber addressUse) \<noteq> Some ConvGuaranteed
           then Rejected
           else Accepted (List.insert (instId user) loadInsts))
      | TryApplyInst _ _ \<Rightarrow>
          (if argumentConvention (kind user) (opNumber addressUse) \<noteq> Some ConvGuaranteed
           then Rejected
           else Accepted (List.insert (instId user) loadInsts))
      | BeginApplyInst _ _ \<Rightarrow>
          (if argumentConvention (kind user) (opNumber addressUse) \<noteq> Some ConvGuaranteed
           then Rejected
           else insertSameBlock f block
                  (map opUser (getUses f (TokenResult (instId user))))
                  (List.insert (instId user) loadInsts))
      | YieldInst _ \<Rightarrow>
          (if argumentConvention (kind user) (opNumber addressUse) \<noteq> Some ConvGuaranteed
           then Rejected
           else Accepted (List.insert (instId user) loadInsts))
      | OpenExistentialAddrInst _ access \<Rightarrow>
          (if access \<noteq> Immutable then Rejected else fromProjection)
      | UncheckedTakeEnumDataAddrInst _ isOptional \<Rightarrow>
          (if \<not> isOptional then Rejected else fromProjection)
      | StructElementAddrInst _ \<Rightarrow> fromProjection
      | TupleElementAddrInst _ \<Rightarrow> fromProjection
      | UncheckedAddrCastInst _ \<Rightarrow> fromProjection
      | LoadInst _ qualifier \<Rightarrow>
          (if qualifier = LoadTake \<and> address \<noteq> copyDest then Rejected
           else Accepted (List.insert (instId user) loadInsts))
      | LoadBorrowInst _ \<Rightarrow>
          visitEndScope f block (scopeEndingUses f user) (List.insert (instId user) loadInsts)
      | FixLifetimeInst _ \<Rightarrow> Accepted (List.insert (instId user) loadInsts)
      | CopyAddrInst _ dest isTakeOfSrc _ \<Rightarrow>
          (if dest = address then Rejected
           else if isTakeOfSrc \<and> address \<noteq> copyDest then Rejected
           else Accepted (List.insert (instId user) loadInsts))
      | _ \<Rightarrow> Rejected)"
| "collectLoadsFromUses depth f [] originalCopy copyDest loadInsts = Accepted loadInsts"
| "collectLoadsFromUses depth f (u # us) originalCopy copyDest loadInsts =
     (case collectLoads depth f u originalCopy copyDest loadInsts of
        Accepted loadInsts' \<Rightarrow> collectLoadsFromUses depth f us originalCopy copyDest loadInsts'
      | Rejected \<Rightarrow> Rejected
      | NoReturn \<Rightarrow> NoReturn)"

section \<open>Changing the function\<close>

text \<open>
  The mutations the pass performs: erasing an instruction, inserting one, moving one,
  setting an operand or a flag of an instruction. An instruction is addressed by its
  identity. A new instruction takes an identity that no instruction of the function has.
\<close>

definition freshId :: "sil_function \<Rightarrow> inst_id" where
  "freshId f = Suc (fold max (map instId (allInsts f)) 0)"

definition eraseFromParent :: "sil_function \<Rightarrow> inst_id \<Rightarrow> sil_function" where
  "eraseFromParent f i = f\<lparr>blocks := map (filter (\<lambda>x. instId x \<noteq> i)) (blocks f)\<rparr>"

definition updateInst :: "sil_function \<Rightarrow> inst_id \<Rightarrow> (inst \<Rightarrow> inst) \<Rightarrow> sil_function" where
  "updateInst f i g = f\<lparr>blocks := map (map (\<lambda>x. if instId x = i then g x else x)) (blocks f)\<rparr>"

fun insertAfterIn :: "inst_id \<Rightarrow> inst \<Rightarrow> inst list \<Rightarrow> inst list" where
  "insertAfterIn i new [] = []"
| "insertAfterIn i new (x # xs) =
     (if instId x = i then x # new # xs else x # insertAfterIn i new xs)"


text \<open>
  Modelled from the spec: \<open>SILBuilderWithScope::insertAfter\<close>, \<open>SILBuilderWithScope(inst)\<close>
  and \<open>SILInstruction::moveAfter\<close> are not in the source file. Section 4.5: the destroy
  of the source is synthesized immediately after the boundary instruction; section 4.3:
  the chosen end-access is moved to immediately after the boundary instruction; a
  builder positioned at an instruction inserts immediately before it. An instruction
  moved after itself stays where it is.
\<close>

definition insertAfter :: "sil_function \<Rightarrow> inst_id \<Rightarrow> inst \<Rightarrow> sil_function" where
  "insertAfter f i new = f\<lparr>blocks := map (insertAfterIn i new) (blocks f)\<rparr>"


definition moveAfter :: "sil_function \<Rightarrow> inst \<Rightarrow> inst_id \<Rightarrow> sil_function" where
  "moveAfter f i after =
     (if instId i = after then f else insertAfter (eraseFromParent f (instId i)) after i)"

text \<open>\<open>withOperands k vs\<close> is the instruction kind \<open>k\<close> with the operands \<open>vs\<close>.\<close>

fun withOperands :: "inst_kind \<Rightarrow> sil_value list \<Rightarrow> inst_kind" where
  "withOperands (AllocStackInst a b c) vs = AllocStackInst a b c"
| "withOperands (CopyAddrInst _ _ t i) vs = CopyAddrInst (vs ! 0) (vs ! 1) t i"
| "withOperands (StoreInst _ _ q) vs = StoreInst (vs ! 0) (vs ! 1) q"
| "withOperands (LoadInst _ q) vs = LoadInst (vs ! 0) q"
| "withOperands (LoadBorrowInst _) vs = LoadBorrowInst (vs ! 0)"
| "withOperands (EndBorrowInst _) vs = EndBorrowInst (vs ! 0)"
| "withOperands (BranchInst _) vs = BranchInst vs"
| "withOperands (BeginAccessInst _ k) vs = BeginAccessInst (vs ! 0) k"
| "withOperands (BeginUnpairedAccessInst _ _) vs = BeginUnpairedAccessInst (vs ! 0) (vs ! 1)"
| "withOperands (EndAccessInst _) vs = EndAccessInst (vs ! 0)"
| "withOperands (DestroyAddrInst _) vs = DestroyAddrInst (vs ! 0)"
| "withOperands (DeallocStackInst _) vs = DeallocStackInst (vs ! 0)"
| "withOperands (MarkDependenceInst _ _) vs = MarkDependenceInst (vs ! 0) (vs ! 1)"
| "withOperands (ApplyInst _ args) vs = ApplyInst (hd vs) (zip (tl vs) (map snd args))"
| "withOperands (TryApplyInst _ args) vs = TryApplyInst (hd vs) (zip (tl vs) (map snd args))"
| "withOperands (BeginApplyInst _ args) vs = BeginApplyInst (hd vs) (zip (tl vs) (map snd args))"
| "withOperands (PartialApplyInst s _ args) vs =
     PartialApplyInst s (hd vs) (zip (tl vs) (map snd args))"
| "withOperands (YieldInst args) vs = YieldInst (zip vs (map snd args))"
| "withOperands (OpenExistentialAddrInst _ a) vs = OpenExistentialAddrInst (vs ! 0) a"
| "withOperands (UncheckedTakeEnumDataAddrInst _ b) vs = UncheckedTakeEnumDataAddrInst (vs ! 0) b"
| "withOperands (StructElementAddrInst _) vs = StructElementAddrInst (vs ! 0)"
| "withOperands (TupleElementAddrInst _) vs = TupleElementAddrInst (vs ! 0)"
| "withOperands (UncheckedAddrCastInst _) vs = UncheckedAddrCastInst (vs ! 0)"
| "withOperands (FixLifetimeInst _) vs = FixLifetimeInst (vs ! 0)"
| "withOperands (DestroyValueInst _) vs = DestroyValueInst (vs ! 0)"
| "withOperands (CopyValueInst _) vs = CopyValueInst (vs ! 0)"
| "withOperands (OtherInst _ t) vs = OtherInst vs t"

text \<open>\<open>Operand::set\<close> on operand number \<open>n\<close> of an instruction.\<close>

definition setOperandOf :: "inst \<Rightarrow> nat \<Rightarrow> sil_value \<Rightarrow> inst" where
  "setOperandOf i n v =
     (let ops = operandsOf (kind i) in
      if n < length ops then i\<lparr>kind := withOperands (kind i) (ops[n := v])\<rparr>
      else i\<lparr>typeDependentOperands := (typeDependentOperands i)[n - length ops := v]\<rparr>)"

definition setOperand :: "sil_function \<Rightarrow> inst_id \<Rightarrow> nat \<Rightarrow> sil_value \<Rightarrow> sil_function" where
  "setOperand f i n v = updateInst f i (\<lambda>x. setOperandOf x n v)"

fun setIsTakeOfSrcOf :: "bool \<Rightarrow> inst_kind \<Rightarrow> inst_kind" where
  "setIsTakeOfSrcOf t (CopyAddrInst src dest _ i) = CopyAddrInst src dest t i"
| "setIsTakeOfSrcOf t k = k"

fun setOwnershipQualifierOf :: "load_qualifier \<Rightarrow> inst_kind \<Rightarrow> inst_kind" where
  "setOwnershipQualifierOf q (LoadInst a _) = LoadInst a q"
| "setOwnershipQualifierOf q k = k"

definition setIsTakeOfSrc :: "sil_function \<Rightarrow> inst_id \<Rightarrow> bool \<Rightarrow> sil_function" where
  "setIsTakeOfSrc f i t = updateInst f i (\<lambda>x. x\<lparr>kind := setIsTakeOfSrcOf t (kind x)\<rparr>)"

definition setOwnershipQualifier :: "sil_function \<Rightarrow> inst_id \<Rightarrow> load_qualifier \<Rightarrow> sil_function" where
  "setOwnershipQualifier f i q = updateInst f i (\<lambda>x. x\<lparr>kind := setOwnershipQualifierOf q (kind x)\<rparr>)"

text \<open>\<open>replaceAllUsesWith\<close>: every operand holding \<open>old\<close> holds \<open>new\<close> afterwards.\<close>

definition substOperands :: "sil_value \<Rightarrow> sil_value \<Rightarrow> inst \<Rightarrow> inst" where
  "substOperands old new i =
     i\<lparr>kind := withOperands (kind i) (map (\<lambda>x. if x = old then new else x) (operandsOf (kind i))),
       typeDependentOperands := map (\<lambda>x. if x = old then new else x) (typeDependentOperands i)\<rparr>"


section \<open>The scope extender\<close>

fun isDestroyAddrInst :: "inst_kind \<Rightarrow> bool" where
  "isDestroyAddrInst (DestroyAddrInst _) = True"
| "isDestroyAddrInst _ = False"

fun isDeallocStackInst :: "inst_kind \<Rightarrow> bool" where
  "isDeallocStackInst (DeallocStackInst _) = True"
| "isDeallocStackInst _ = False"

fun isBeginAccessInst :: "inst_kind \<Rightarrow> bool" where
  "isBeginAccessInst (BeginAccessInst _ _) = True"
| "isBeginAccessInst _ = False"

fun isBeginUnpairedAccessInst :: "inst_kind \<Rightarrow> bool" where
  "isBeginUnpairedAccessInst (BeginUnpairedAccessInst _ _) = True"
| "isBeginUnpairedAccessInst _ = False"

text \<open>
  \<open>EndAccessInst::getBeginAccess\<close> casts the operand's defining instruction to a
  begin-access; \<open>None\<close> is the failed cast. The answer is the begin-access's source
  (which is also \<open>EndAccessInst::getSource\<close>) and its access kind.
\<close>

definition getBeginAccess :: "sil_function \<Rightarrow> inst \<Rightarrow> (sil_value \<times> access_kind) option" where
  "getBeginAccess f endAccess =
     (case kind endAccess of
        EndAccessInst (InstResult b) \<Rightarrow>
          (case lookupInst f b of
             Some beginAccess \<Rightarrow>
               (case kind beginAccess of
                  BeginAccessInst source accessKind \<Rightarrow> Some (source, accessKind)
                | _ \<Rightarrow> None)
           | None \<Rightarrow> None)
      | _ \<Rightarrow> None)"

text \<open>
  The range \<^verbatim>\<open>make_range(std::next(copyInst), std::next(lastUseInst))\<close>: empty when
  the boundary is the copy, else the instructions after the copy up to the boundary,
  the boundary included.
\<close>

definition instsBetween :: "sil_function \<Rightarrow> inst_id \<Rightarrow> inst_id \<Rightarrow> inst list" where
  "instsBetween f copyInst lastUseInst =
     (if lastUseInst = copyInst then []
      else takeWhile (\<lambda>x. instId x \<noteq> lastUseInst) (instsAfter f copyInst)
           @ take 1 (dropWhile (\<lambda>x. instId x \<noteq> lastUseInst) (instsAfter f copyInst)))"

fun scanAccessScopes ::
  "analyses \<Rightarrow> sil_function \<Rightarrow> sil_value \<Rightarrow> inst \<Rightarrow> inst option \<Rightarrow> inst list \<Rightarrow> inst option check"
where
  "scanAccessScopes aa f copySrc lastUseInst endAccessToMove [] = Accepted endAccessToMove"
| "scanAccessScopes aa f copySrc lastUseInst endAccessToMove (i # rest) =
     (case kind i of
        EndAccessInst _ \<Rightarrow>
          (if endAccessToMove \<noteq> None then Rejected
           else case getBeginAccess f i of
             None \<Rightarrow> NoReturn
           | Some (source, accessKind) \<Rightarrow>
               if \<not> isNoAlias aa copySrc source \<and> accessKind = AccessRead then
                 (if isTermInst (kind lastUseInst) then Rejected
                  else scanAccessScopes aa f copySrc lastUseInst (Some i) rest)
               else scanAccessScopes aa f copySrc lastUseInst endAccessToMove rest)
      | _ \<Rightarrow>
          (case endAccessToMove of
             None \<Rightarrow> scanAccessScopes aa f copySrc lastUseInst endAccessToMove rest
           | Some e \<Rightarrow>
               if isBeginAccessInst (kind i) \<or> isBeginUnpairedAccessInst (kind i) then Rejected
               else case getBeginAccess f e of
                 None \<Rightarrow> NoReturn
               | Some (source, _) \<Rightarrow>
                   if mayWriteToMemory aa i source then Rejected
                   else scanAccessScopes aa f copySrc lastUseInst endAccessToMove rest))"

definition extendAccessScopes ::
  "analyses \<Rightarrow> sil_function \<Rightarrow> inst \<Rightarrow> sil_value \<Rightarrow> inst \<Rightarrow> sil_function check" where
  "extendAccessScopes aa f copyInst copySrc lastUseInst =
     (case scanAccessScopes aa f copySrc lastUseInst None
             (instsBetween f (instId copyInst) (instId lastUseInst)) of
        NoReturn \<Rightarrow> NoReturn
      | Rejected \<Rightarrow> Rejected
      | Accepted None \<Rightarrow> Accepted f
      | Accepted (Some endAccessToMove) \<Rightarrow>
          Accepted (moveAfter f endAccessToMove (instId lastUseInst)))"

section \<open>The destroy-pattern validator\<close>

fun checkFrontier :: "sil_function \<Rightarrow> sil_value \<Rightarrow> inst_id list \<Rightarrow> unit check" where
  "checkFrontier f tempObj [] = Accepted ()"
| "checkFrontier f tempObj (frontierInst # frontier) =
     (case rev (instsBefore f frontierInst) of
        [] \<Rightarrow> Rejected
      | lastUser # _ \<Rightarrow>
          (case kind lastUser of
             DestroyAddrInst _ \<Rightarrow> checkFrontier f tempObj frontier
           | CopyAddrInst src _ isTakeOfSrc _ \<Rightarrow>
               if src \<noteq> tempObj then NoReturn
               else if isTakeOfSrc then checkFrontier f tempObj frontier
               else Rejected
           | _ \<Rightarrow> Rejected))"

definition tempObjUsers :: "sil_function \<Rightarrow> inst \<Rightarrow> inst \<Rightarrow> inst list" where
  "tempObjUsers f tempObj copyInst =
     filter (\<lambda>user. instId user \<noteq> instId copyInst \<and> \<not> isDeallocStackInst (kind user))
       (map opUser (getUses f (InstResult (instId tempObj))))"

definition checkTempObjectDestroy ::
  "analyses \<Rightarrow> sil_function \<Rightarrow> inst \<Rightarrow> inst \<Rightarrow> unit check" where
  "checkTempObjectDestroy aa f tempObj copyInst =
     (case computeFrontier aa f copyInst (tempObjUsers f tempObj copyInst) of
        None \<Rightarrow> Rejected
      | Some tempAddressFrontier \<Rightarrow>
          checkFrontier f (InstResult (instId tempObj)) tempAddressFrontier)"

section \<open>The copy rewriter\<close>

subsection \<open>The number of uses of a value\<close>

text \<open>
  The commit loop of \<open>tryOptimizeCopyIntoTemp\<close> runs while the temporary has a use. It
  ends because every turn erases a user or redirects one operand away from the
  temporary; the lemmas below count the uses.
\<close>

lemma length_usesIn: "length (usesIn v i) = length (filter (\<lambda>x. x = v) (allOperands i))"
proof -
  have "length (filter (\<lambda>n. xs ! n = v) [0..<length xs]) = length (filter (\<lambda>x. x = v) xs)" for xs :: "sil_value list"
  proof (induction xs rule: rev_induct)
    case Nil
    then show ?case by simp
  next
    case (snoc x xs)
    have "filter (\<lambda>n. (xs @ [x]) ! n = v) [0..<length xs] = filter (\<lambda>n. xs ! n = v) [0..<length xs]"
      by (rule filter_cong) (auto simp: nth_append)
    with snoc show ?case by simp
  qed
  then show ?thesis by (simp add: usesIn_def)
qed

definition useCount :: "sil_value \<Rightarrow> inst \<Rightarrow> nat" where
  "useCount v i = length (filter (\<lambda>x. x = v) (allOperands i))"

lemma length_getUses: "length (getUses f v) = sum_list (map (useCount v) (allInsts f))"
  by (simp add: getUses_def length_concat comp_def length_usesIn useCount_def [abs_def])

lemma operandsOf_withOperands:
  "length vs = length (operandsOf k) \<Longrightarrow> operandsOf (withOperands k vs) = vs"
  by (cases k) (auto simp: length_Suc_conv zip_map_fst_snd)

lemma allOperands_setOperandOf: "allOperands (setOperandOf i n v) = (allOperands i)[n := v]"
  by (simp add: setOperandOf_def allOperands_def Let_def operandsOf_withOperands list_update_append)

lemma count_update_le:
  "v \<noteq> t \<Longrightarrow> length (filter (\<lambda>x. x = t) (xs[n := v])) \<le> length (filter (\<lambda>x. x = t) xs)"
  by (induction xs arbitrary: n) (auto split: nat.splits)

lemma count_update_less:
  "v \<noteq> t \<Longrightarrow> n < length xs \<Longrightarrow> xs ! n = t \<Longrightarrow>
   length (filter (\<lambda>x. x = t) (xs[n := v])) < length (filter (\<lambda>x. x = t) xs)"
proof (induction xs arbitrary: n)
  case Nil
  then show ?case by simp
next
  case (Cons a xs)
  then show ?case
    by (cases n) auto
qed

lemma useCount_setOperandOf_le: "v \<noteq> t \<Longrightarrow> useCount t (setOperandOf i n v) \<le> useCount t i"
  by (simp add: useCount_def allOperands_setOperandOf count_update_le)

lemma in_getUses:
  "u \<in> set (getUses f t) \<longleftrightarrow>
     opUser u \<in> set (allInsts f) \<and> opNumber u < length (allOperands (opUser u))
     \<and> allOperands (opUser u) ! opNumber u = t \<and> opValue u = t \<and> operand.more u = ()"
  by (cases u) (auto simp: getUses_def usesIn_def)

lemma useCount_pos: "n < length (allOperands i) \<Longrightarrow> allOperands i ! n = t \<Longrightarrow> 0 < useCount t i"
  by (auto simp: useCount_def filter_empty_conv length_greater_0_conv intro: nth_mem)

lemma sum_list_map_less:
  fixes h :: "'a \<Rightarrow> nat"
  assumes "\<forall>x \<in> set xs. h (g x) \<le> h x" "x \<in> set xs" "h (g x) < h x"
  shows "sum_list (map h (map g xs)) < sum_list (map h xs)"
  using assms
proof (induction xs)
  case Nil
  then show ?case by simp
next
  case (Cons a xs)
  have le: "sum_list (map h (map g xs)) \<le> sum_list (map h xs)"
    using Cons.prems(1) by (simp add: sum_list_mono comp_def)
  show ?case
  proof (cases "x = a")
    case True
    with Cons.prems le show ?thesis by simp
  next
    case False
    with Cons have "sum_list (map h (map g xs)) < sum_list (map h xs)" by simp
    moreover have "h (g a) \<le> h a" using Cons.prems(1) by simp
    ultimately show ?thesis by simp
  qed
qed

lemma sum_list_filter_less:
  fixes h :: "'a \<Rightarrow> nat"
  assumes "x \<in> set xs" "\<not> P x" "0 < h x"
  shows "sum_list (map h (filter P xs)) < sum_list (map h xs)"
  using assms
proof (induction xs)
  case Nil
  then show ?case by simp
next
  case (Cons a xs)
  have le: "sum_list (map h (filter P xs)) \<le> sum_list (map h xs)"
    by (induction xs) auto
  show ?case
  proof (cases "x = a")
    case True
    with Cons.prems le show ?thesis by simp
  next
    case False
    with Cons have "sum_list (map h (filter P xs)) < sum_list (map h xs)" by simp
    then show ?thesis by simp
  qed
qed

lemma allInsts_updateInst:
  "allInsts (updateInst f i g) = map (\<lambda>x. if instId x = i then g x else x) (allInsts f)"
  by (simp add: allInsts_def updateInst_def map_concat)

lemma allInsts_eraseFromParent:
  "allInsts (eraseFromParent f i) = filter (\<lambda>x. instId x \<noteq> i) (allInsts f)"
  by (simp add: allInsts_def eraseFromParent_def filter_concat)

lemma getUses_erase_less:
  assumes "u \<in> set (getUses f t)"
  shows "length (getUses (eraseFromParent f (instId (opUser u))) t) < length (getUses f t)"
proof -
  from assms have "opUser u \<in> set (allInsts f)" "0 < useCount t (opUser u)"
    by (auto simp: in_getUses intro: useCount_pos)
  then show ?thesis
    by (simp add: length_getUses allInsts_eraseFromParent sum_list_filter_less)
qed

lemma getUses_updateInst_less:
  assumes "x \<in> set (allInsts f)" "instId x = i" "useCount t (h x) < useCount t x"
    "\<And>y. useCount t (h y) \<le> useCount t y"
  shows "length (getUses (updateInst f i h) t) < length (getUses f t)"
proof -
  let ?g = "\<lambda>x. if instId x = i then h x else x"
  have "\<forall>x \<in> set (allInsts f). useCount t (?g x) \<le> useCount t x"
    using assms(4) by simp
  moreover have "useCount t (?g x) < useCount t x"
    using assms by simp
  ultimately have "sum_list (map (useCount t) (map ?g (allInsts f))) < sum_list (map (useCount t) (allInsts f))"
    using assms(1) by (intro sum_list_map_less[where x = x]) auto
  then show ?thesis
    by (simp add: length_getUses allInsts_updateInst)
qed

lemma setOperand_updateInst:
  assumes "\<And>x. instId (g x) = instId x"
  shows "setOperand (updateInst f i g) i n v = updateInst f i (\<lambda>x. setOperandOf (g x) n v)"
  by (simp add: setOperand_def updateInst_def assms comp_def cong: if_cong)

lemma allOperands_setIsTakeOfSrcOf [simp]:
  "allOperands (x\<lparr>kind := setIsTakeOfSrcOf b (kind x)\<rparr>) = allOperands x"
  by (cases "kind x") (auto simp: allOperands_def)

lemma allOperands_setOwnershipQualifierOf [simp]:
  "allOperands (x\<lparr>kind := setOwnershipQualifierOf q (kind x)\<rparr>) = allOperands x"
  by (cases "kind x") (auto simp: allOperands_def)

lemma length_getUses_updateInst_same:
  assumes "\<And>x. allOperands (g x) = allOperands x"
  shows "length (getUses (updateInst f i g) t) = length (getUses f t)"
proof -
  have "map (useCount t) (map (\<lambda>x. if instId x = i then g x else x) xs) = map (useCount t) xs" for xs
    by (induction xs) (auto simp: useCount_def assms)
  then show ?thesis by (simp only: length_getUses allInsts_updateInst)
qed

lemma length_getUses_setIsTakeOfSrc [simp]:
  "length (getUses (setIsTakeOfSrc f i b) t) = length (getUses f t)"
  unfolding setIsTakeOfSrc_def by (rule length_getUses_updateInst_same) simp

lemma length_getUses_setOwnershipQualifier [simp]:
  "length (getUses (setOwnershipQualifier f i q) t) = length (getUses f t)"
  unfolding setOwnershipQualifier_def by (rule length_getUses_updateInst_same) simp

lemma replace_step_erase:
  assumes "getUses f t = use # list"
  shows "length (getUses (eraseFromParent f (instId (opUser use))) t) < Suc (length list)"
proof -
  from assms have "use \<in> set (getUses f t)" by simp
  from getUses_erase_less[OF this] assms show ?thesis by simp
qed

lemma replace_step_set:
  assumes "getUses f t = use # list" "v \<noteq> t"
  shows "length (getUses (setOperand f (instId (opUser use)) (opNumber use) v) t) < Suc (length list)"
proof -
  let ?x = "opUser use"
  from assms(1) have "use \<in> set (getUses f t)" by simp
  then have x: "?x \<in> set (allInsts f)" "opNumber use < length (allOperands ?x)"
    "allOperands ?x ! opNumber use = t" by (auto simp: in_getUses)
  have "length (getUses (updateInst f (instId ?x) (\<lambda>x. setOperandOf x (opNumber use) v)) t)
      < length (getUses f t)"
    using x assms(2)
    by (intro getUses_updateInst_less[where x = ?x])
       (auto simp: useCount_def allOperands_setOperandOf count_update_less count_update_le)
  then show ?thesis using assms by (simp add: setOperand_def)
qed

lemma replace_step_updated:
  assumes "getUses f t = use # list" "v \<noteq> t" "\<And>x. allOperands (g x) = allOperands x"
    "\<And>x. instId (g x) = instId x"
  shows "length (getUses (setOperand (updateInst f (instId (opUser use)) g)
            (instId (opUser use)) (opNumber use) v) t) < Suc (length list)"
proof -
  let ?x = "opUser use"
  from assms(1) have "use \<in> set (getUses f t)" by simp
  then have x: "?x \<in> set (allInsts f)" "opNumber use < length (allOperands ?x)"
    "allOperands ?x ! opNumber use = t" by (auto simp: in_getUses)
  have "length (getUses (updateInst f (instId ?x) (\<lambda>x. setOperandOf (g x) (opNumber use) v)) t)
      < length (getUses f t)"
    using x assms(2)
    by (intro getUses_updateInst_less[where x = ?x])
       (auto simp: useCount_def allOperands_setOperandOf count_update_less count_update_le assms(3))
  then show ?thesis using assms by (simp add: setOperand_updateInst)
qed

subsection \<open>The commit loop\<close>

text \<open>
  \<^verbatim>\<open>while (!tempObj->use_empty())\<close>: the first use of the temporary decides the turn.
  \<open>None\<close> is a failed assertion (a copy from elsewhere into the temporary other than
  \<open>copyInst\<close>; and \<open>copySrc = tempObj\<close>, which the caller's assertion excludes and with
  which the loop would not end).
\<close>

function replaceTempUses ::
  "sil_function \<Rightarrow> sil_value \<Rightarrow> sil_value \<Rightarrow> inst_id \<Rightarrow> bool \<Rightarrow> inst_id \<Rightarrow> sil_function option"
where
  "replaceTempUses f tempObj copySrc copyInst needFinalDeinit lastLoadInst =
     (case getUses f tempObj of
        [] \<Rightarrow> Some f
      | use # _ \<Rightarrow>
          if copySrc = tempObj then None
          else
            (let user = opUser use in
             case kind user of
               DestroyAddrInst _ \<Rightarrow>
                 replaceTempUses (eraseFromParent f (instId user))
                   tempObj copySrc copyInst needFinalDeinit lastLoadInst
             | DeallocStackInst _ \<Rightarrow>
                 replaceTempUses (eraseFromParent f (instId user))
                   tempObj copySrc copyInst needFinalDeinit lastLoadInst
             | CopyAddrInst src _ isTakeOfSrc _ \<Rightarrow>
                 if instId user \<noteq> copyInst \<and> src \<noteq> tempObj then None
                 else
                   replaceTempUses
                     (setOperand
                        (if instId user \<noteq> copyInst \<and> isTakeOfSrc
                            \<and> (\<not> needFinalDeinit \<or> lastLoadInst \<noteq> instId user)
                         then setIsTakeOfSrc f (instId user) False else f)
                        (instId user) (opNumber use) copySrc)
                     tempObj copySrc copyInst needFinalDeinit lastLoadInst
             | LoadInst _ qualifier \<Rightarrow>
                 replaceTempUses
                   (setOperand
                      (if qualifier = LoadTake \<and> (\<not> needFinalDeinit \<or> instId user \<noteq> lastLoadInst)
                       then setOwnershipQualifier f (instId user) LoadCopy else f)
                      (instId user) (opNumber use) copySrc)
                   tempObj copySrc copyInst needFinalDeinit lastLoadInst
             | _ \<Rightarrow>
                 replaceTempUses (setOperand f (instId user) (opNumber use) copySrc)
                   tempObj copySrc copyInst needFinalDeinit lastLoadInst))"
  by pat_completeness auto
termination
  by (relation "measure (\<lambda>(f, tempObj, _). length (getUses f tempObj))")
     (auto simp: replace_step_erase replace_step_set setIsTakeOfSrc_def setOwnershipQualifier_def
           intro!: replace_step_updated)

declare replaceTempUses.simps [simp del]


subsection \<open>The checks\<close>

text \<open>
  \<^verbatim>\<open>dyn_cast<AllocStackInst>(v)\<close>: the allocation that defines \<open>v\<close>, with its lexical
  and move-only flags.
\<close>

definition asAllocStackInst :: "sil_function \<Rightarrow> sil_value \<Rightarrow> (inst \<times> bool \<times> bool \<times> bool) option" where
  "asAllocStackInst f v =
     (case v of
        InstResult t \<Rightarrow>
          (case lookupInst f t of
             Some tempObj \<Rightarrow>
               (case kind tempObj of
                  AllocStackInst isLexical hasDynamicLifetime isMoveOnly \<Rightarrow>
                    Some (tempObj, isLexical, hasDynamicLifetime, isMoveOnly)
                | _ \<Rightarrow> None)
           | None \<Rightarrow> None)
      | _ \<Rightarrow> None)"

text \<open>The lexical guard; true when the rewriter returns.\<close>

definition lexicalGuardFails :: "analyses \<Rightarrow> bool \<Rightarrow> sil_value \<Rightarrow> bool" where
  "lexicalGuardFails aa isLexical copySrc =
     (isLexical \<and>
      (case accessStorageBase aa copySrc of
         None \<Rightarrow> True
       | Some (FunctionArgument _ ownership) \<Rightarrow> ownership \<noteq> Guaranteed
       | Some _ \<Rightarrow> False))"

text \<open>
  The loop of \<open>tryOptimizeCopyIntoTemp\<close> over the uses of the temporary. The depth given
  to \<open>collectLoads\<close> is more than the number of instructions: a chain of uses that long
  comes back to an instruction, and the recursion of the source does not end on it.
\<close>

fun collectTempUses ::
  "sil_function \<Rightarrow> inst \<Rightarrow> sil_value \<Rightarrow> bool \<Rightarrow> bool \<Rightarrow> operand list \<Rightarrow> inst_id list
   \<Rightarrow> inst_id list check" where
  "collectTempUses f copyInst tempObj isOSSA needFinalDeinit [] loadInsts = Accepted loadInsts"
| "collectTempUses f copyInst tempObj isOSSA needFinalDeinit (useOper # uses) loadInsts =
     (let user = opUser useOper in
      if instId user = instId copyInst then
        collectTempUses f copyInst tempObj isOSSA needFinalDeinit uses loadInsts
      else if isDeallocStackInst (kind user) then
        collectTempUses f copyInst tempObj isOSSA needFinalDeinit uses loadInsts
      else if isDestroyAddrInst (kind user) then
        (if \<not> isOSSA \<and> needFinalDeinit then
           (if getParent f (instId user) \<noteq> getParent f (instId copyInst) then Rejected
            else collectTempUses f copyInst tempObj isOSSA needFinalDeinit uses
                   (List.insert (instId user) loadInsts))
         else collectTempUses f copyInst tempObj isOSSA needFinalDeinit uses loadInsts)
      else
        (case collectLoads (Suc (length (allInsts f))) f useOper (instId copyInst) tempObj loadInsts of
           Accepted loadInsts' \<Rightarrow>
             collectTempUses f copyInst tempObj isOSSA needFinalDeinit uses loadInsts'
         | Rejected \<Rightarrow> Rejected
         | NoReturn \<Rightarrow> NoReturn))"

text \<open>
  The checks between use collection and commit, in the order of the source: a user of
  the temporary before the copy, the boundary, the re-initialization of the source by
  the boundary, the destroy pattern (not under ownership), the access scopes. The
  answer is the boundary \<open>lastLoadInst\<close> and the function, in which the scope extender
  may have moved an end-access.
\<close>

definition copyChecks ::
  "analyses \<Rightarrow> sil_function \<Rightarrow> inst \<Rightarrow> sil_value \<Rightarrow> bool \<Rightarrow> inst \<Rightarrow> (inst \<times> sil_function) check"
where
  "copyChecks aa f copyInst copySrc needFinalDeinit tempObj =
     (let isOSSA = hasOwnership f;
          uses = getUses f (InstResult (instId tempObj)) in
      case collectTempUses f copyInst (InstResult (instId tempObj)) isOSSA needFinalDeinit uses [] of
        NoReturn \<Rightarrow> NoReturn
      | Rejected \<Rightarrow> Rejected
      | Accepted loadInsts \<Rightarrow>
          if \<exists>i \<in> set (instsBefore f (instId copyInst)). instId i \<in> set (map (instId \<circ> opUser) uses)
          then Rejected
          else
            (case getLastUseWhileSourceIsNotModified f copyInst copySrc loadInsts aa of
               None \<Rightarrow> Rejected
             | Some lastLoadInst \<Rightarrow>
                 if needFinalDeinit \<and> instId lastLoadInst \<noteq> instId copyInst
                    \<and> \<not> isDestroyAddrInst (kind lastLoadInst)
                    \<and> mayWriteToMemory aa lastLoadInst copySrc
                 then Rejected
                 else
                   (case (if isOSSA then Accepted () else checkTempObjectDestroy aa f tempObj copyInst) of
                      NoReturn \<Rightarrow> NoReturn
                    | Rejected \<Rightarrow> Rejected
                    | Accepted _ \<Rightarrow>
                        (case extendAccessScopes aa f copyInst copySrc lastLoadInst of
                           NoReturn \<Rightarrow> NoReturn
                         | Rejected \<Rightarrow> Rejected
                         | Accepted f' \<Rightarrow> Accepted (lastLoadInst, f')))))"

subsection \<open>The commit\<close>

text \<open>
  The lambda \<open>needToInsertDestroy\<close>; \<open>None\<close> is the failed assertion on a move-only
  temporary.
\<close>

definition needToInsertDestroy ::
  "bool \<Rightarrow> inst \<Rightarrow> inst \<Rightarrow> sil_value \<Rightarrow> bool \<Rightarrow> bool option" where
  "needToInsertDestroy needFinalDeinit lastLoadInst copyInst tempObj isMoveOnly =
     (if \<not> needFinalDeinit then Some False
      else if instId lastLoadInst = instId copyInst then Some True
      else case kind lastLoadInst of
        CopyAddrInst src _ isTakeOfSrc _ \<Rightarrow>
          if src = tempObj \<and> isTakeOfSrc then Some False
          else if isMoveOnly then None else Some True
      | LoadInst address qualifier \<Rightarrow>
          if address = tempObj \<and> qualifier = LoadTake then Some False
          else if isMoveOnly then None else Some True
      | _ \<Rightarrow> Some True)"

text \<open>
  Modelled from the spec: \<open>SILBuilder::createDestroyAddr\<close> is not in the source file.
  Section 4.5: a destroy of the source is synthesized; it is one new \<open>destroy_addr\<close> of
  the address, an instruction that the function does not have yet.
\<close>

definition createDestroyAddr :: "sil_function \<Rightarrow> sil_value \<Rightarrow> inst" where
  "createDestroyAddr f address =
     \<lparr>instId = freshId f, kind = DestroyAddrInst address, typeDependentOperands = []\<rparr>"

definition commitCopy ::
  "sil_function \<Rightarrow> inst \<Rightarrow> sil_value \<Rightarrow> bool \<Rightarrow> inst \<Rightarrow> bool \<Rightarrow> inst \<Rightarrow> sil_function option"
where
  "commitCopy f copyInst copySrc needFinalDeinit tempObj isMoveOnly lastLoadInst =
     (case needToInsertDestroy needFinalDeinit lastLoadInst copyInst (InstResult (instId tempObj))
             isMoveOnly of
        None \<Rightarrow> None
      | Some insertDestroy \<Rightarrow>
          (case replaceTempUses
                  (if insertDestroy
                   then insertAfter f (instId lastLoadInst) (createDestroyAddr f copySrc)
                   else f)
                  (InstResult (instId tempObj)) copySrc (instId copyInst) needFinalDeinit
                  (instId lastLoadInst) of
             None \<Rightarrow> None
           | Some f' \<Rightarrow> Some (eraseFromParent f' (instId tempObj))))"

subsection \<open>The rewriter\<close>

text \<open>
  \<open>tryOptimizeCopyIntoTemp\<close>. \<open>Some f\<close> with the function it was given is the return
  without a rewrite; \<open>None\<close> is a run that does not return.
\<close>

definition tryOptimizeCopyIntoTemp ::
  "analyses \<Rightarrow> sil_function \<Rightarrow> inst \<Rightarrow> sil_function option" where
  "tryOptimizeCopyIntoTemp aa f copyInst =
     (case kind copyInst of
        CopyAddrInst copySrc dest isTakeOfSrc isInitializationOfDest \<Rightarrow>
          if \<not> isInitializationOfDest then Some f
          else
            (case asAllocStackInst f dest of
               None \<Rightarrow> Some f
             | Some (tempObj, isLexical, hasDynamicLifetime, isMoveOnly) \<Rightarrow>
                 if lexicalGuardFails aa isLexical copySrc then Some f
                 else if InstResult (instId tempObj) = copySrc then None
                 else
                   (case copyChecks aa f copyInst copySrc isTakeOfSrc tempObj of
                      NoReturn \<Rightarrow> None
                    | Rejected \<Rightarrow> Some f
                    | Accepted (lastLoadInst, f') \<Rightarrow>
                        commitCopy f' copyInst copySrc isTakeOfSrc tempObj isMoveOnly lastLoadInst))
      | _ \<Rightarrow> Some f)"

section \<open>The store rewriter\<close>









section \<open>The pass driver\<close>












section \<open>Example functions\<close>

text \<open>
  Small functions on which the theorems below are instantiated. \<open>mkInst\<close> builds an
  instruction with no type-dependent operand; \<open>quietAnalyses\<close> answers that nothing
  writes and nothing aliases, \<open>writingCall\<close> that instruction 3 may write anywhere.
\<close>

definition mkInst :: "inst_id \<Rightarrow> inst_kind \<Rightarrow> inst" where
  "mkInst i k = \<lparr>instId = i, kind = k, typeDependentOperands = []\<rparr>"

definition quietAnalyses :: analyses where
  "quietAnalyses =
     \<lparr>mayWriteToMemory = (\<lambda>_ _. False), isNoAlias = (\<lambda>_ _. True),
      accessStorageBase = (\<lambda>v. Some v), computeFrontier = (\<lambda>_ _ _. None)\<rparr>"

definition writingCall :: analyses where
  "writingCall = quietAnalyses\<lparr>mayWriteToMemory := (\<lambda>i _. instId i = 3)\<rparr>"

definition srcArg :: sil_value where
  "srcArg = FunctionArgument 0 Guaranteed"

text \<open>
  \<^verbatim>\<open>%1 = alloc_stack; copy_addr %0 to [init] %1; %3 = load [copy] %1; destroy_addr %1;
  dealloc_stack %1; return\<close>, under ownership.
\<close>

definition copyOf :: "bool \<Rightarrow> inst" where
  "copyOf isTake = mkInst 2 (CopyAddrInst srcArg (InstResult 1) isTake True)"

definition loadExample :: "bool \<Rightarrow> sil_function" where
  "loadExample isTake =
     \<lparr>blocks = [[mkInst 1 (AllocStackInst False False False),
                 copyOf isTake,
                 mkInst 3 (LoadInst (InstResult 1) LoadCopy),
                 mkInst 4 (DestroyAddrInst (InstResult 1)),
                 mkInst 5 (DeallocStackInst (InstResult 1)),
                 mkInst 6 (OtherInst [] True)]],
      hasOwnership = True\<rparr>"

text \<open>
  The same with the destroy and the deallocation in a second block:
  \<^verbatim>\<open>bb0: %1 = alloc_stack; copy_addr %0 to [init] %1; %3 = load [copy] %1; br bb1
  bb1: destroy_addr %1; dealloc_stack %1; return\<close>.
\<close>

definition splitExample :: "bool \<Rightarrow> bool \<Rightarrow> sil_function" where
  "splitExample isTake ossa =
     \<lparr>blocks = [[mkInst 1 (AllocStackInst False False False),
                 copyOf isTake,
                 mkInst 3 (LoadInst (InstResult 1) LoadCopy),
                 mkInst 4 (BranchInst [])],
                [mkInst 5 (DestroyAddrInst (InstResult 1)),
                 mkInst 6 (DeallocStackInst (InstResult 1)),
                 mkInst 7 (OtherInst [] True)]],
      hasOwnership = ossa\<rparr>"

text \<open>A load of the temporary in the second block.\<close>

definition strayLoadExample :: sil_function where
  "strayLoadExample =
     \<lparr>blocks = [[mkInst 1 (AllocStackInst False False False),
                 copyOf False,
                 mkInst 4 (BranchInst [])],
                [mkInst 3 (LoadInst (InstResult 1) LoadCopy),
                 mkInst 5 (DestroyAddrInst (InstResult 1)),
                 mkInst 6 (DeallocStackInst (InstResult 1)),
                 mkInst 7 (OtherInst [] True)]],
      hasOwnership = True\<rparr>"

definition useOf :: "inst \<Rightarrow> nat \<Rightarrow> sil_value \<Rightarrow> operand" where
  "useOf i n v = \<lparr>opUser = i, opNumber = n, opValue = v\<rparr>"

text \<open>
  A read access of the source that ends between the copy and the use of the temporary:
  \<^verbatim>\<open>%10 = begin_access [read] %0; %1 = alloc_stack; copy_addr %10 to [init] %1;
  end_access %10; %3 = load [copy] %1; destroy_addr %1; dealloc_stack %1; return\<close>.
  In \<open>nestedAccessExample\<close> a second read access \<open>%13\<close> ends there too.
  \<open>mayAliasAnalyses\<close> answers that any two addresses may alias.
\<close>

definition mayAliasAnalyses :: analyses where
  "mayAliasAnalyses = quietAnalyses\<lparr>isNoAlias := (\<lambda>_ _. False)\<rparr>"

definition accessCopy :: inst where
  "accessCopy = mkInst 2 (CopyAddrInst (InstResult 10) (InstResult 1) False True)"

definition accessExample :: sil_function where
  "accessExample =
     \<lparr>blocks = [[mkInst 10 (BeginAccessInst srcArg AccessRead),
                 mkInst 1 (AllocStackInst False False False),
                 accessCopy,
                 mkInst 11 (EndAccessInst (InstResult 10)),
                 mkInst 3 (LoadInst (InstResult 1) LoadCopy),
                 mkInst 4 (DestroyAddrInst (InstResult 1)),
                 mkInst 5 (DeallocStackInst (InstResult 1)),
                 mkInst 6 (OtherInst [] True)]],
      hasOwnership = True\<rparr>"

definition nestedAccessExample :: sil_function where
  "nestedAccessExample =
     \<lparr>blocks = [[mkInst 10 (BeginAccessInst srcArg AccessRead),
                 mkInst 13 (BeginAccessInst srcArg AccessRead),
                 mkInst 1 (AllocStackInst False False False),
                 accessCopy,
                 mkInst 11 (EndAccessInst (InstResult 10)),
                 mkInst 12 (EndAccessInst (InstResult 13)),
                 mkInst 3 (LoadInst (InstResult 1) LoadCopy),
                 mkInst 4 (DestroyAddrInst (InstResult 1)),
                 mkInst 5 (DeallocStackInst (InstResult 1)),
                 mkInst 6 (OtherInst [] True)]],
      hasOwnership = True\<rparr>"

text \<open>\<open>frontierAnalyses fr\<close> answers the frontier \<open>fr\<close> to every query.\<close>

definition frontierAnalyses :: "inst_id list \<Rightarrow> analyses" where
  "frontierAnalyses fr = quietAnalyses\<lparr>computeFrontier := (\<lambda>_ _ _. Some fr)\<rparr>"



section \<open>The lifetime boundary\<close>

text \<open>
  The loop of the modification checker, entered with \<open>k\<close> reads counted and fewer than
  all of them: it answers \<open>i\<close> exactly when \<open>i\<close> is the instruction at which the count
  reaches the size of the set, nothing scanned before \<open>i\<close> may write to the source, and
  \<open>i\<close> is not a call or a yield that may write to it.
\<close>

lemma scanForLastUse_Some_iff:
  "k < length U \<Longrightarrow>
   scanForLastUse aa src U k rest = Some i \<longleftrightarrow>
     (\<exists>pre post. rest = pre @ i # post
        \<and> k + length (filter (\<lambda>x. instId x \<in> set U) (pre @ [i])) = length U
        \<and> k + length (filter (\<lambda>x. instId x \<in> set U) pre) < length U
        \<and> (\<forall>j \<in> set pre. \<not> mayWriteToMemory aa j src)
        \<and> \<not> ((isFullApplySite (kind i) \<or> isYieldInst (kind i)) \<and> mayWriteToMemory aa i src))"
proof (induction rest arbitrary: k)
  case Nil
  then show ?case by simp
next
  case (Cons a rest)
  let ?n = "if instId a \<in> set U then k + 1 else k"
  let ?call = "\<lambda>i. (isFullApplySite (kind i) \<or> isYieldInst (kind i)) \<and> mayWriteToMemory aa i src"
  let ?found = "\<lambda>k rest. \<exists>pre post. rest = pre @ i # post
        \<and> k + length (filter (\<lambda>x. instId x \<in> set U) (pre @ [i])) = length U
        \<and> k + length (filter (\<lambda>x. instId x \<in> set U) pre) < length U
        \<and> (\<forall>j \<in> set pre. \<not> mayWriteToMemory aa j src) \<and> \<not> ?call i"
  show ?case
  proof (cases "?n = length U")
    case True
    have "?found k (a # rest) \<longleftrightarrow> a = i \<and> \<not> ?call i"
    proof
      assume "?found k (a # rest)"
      then obtain pre post where p: "a # rest = pre @ i # post"
        "k + length (filter (\<lambda>x. instId x \<in> set U) pre) < length U" "\<not> ?call i"
        by blast
      have "pre = []"
      proof (cases pre)
        case Nil
        then show ?thesis .
      next
        case (Cons b pre')
        with p(1) have "b = a" by simp
        with Cons p(2) True Cons.prems show ?thesis by (auto split: if_splits)
      qed
      with p show "a = i \<and> \<not> ?call i" by simp
    next
      assume r: "a = i \<and> \<not> ?call i"
      with True Cons.prems show "?found k (a # rest)"
        by (intro exI[of _ "[]"] exI[of _ rest]) (auto split: if_splits)
    qed
    with True show ?thesis by (auto simp: Let_def)
  next
    case False
    with Cons.prems have lt: "?n < length U" by (auto split: if_splits)
    show ?thesis
    proof (cases "mayWriteToMemory aa a src")
      case True
      have "\<not> ?found k (a # rest)"
      proof
        assume "?found k (a # rest)"
        then obtain pre post where p: "a # rest = pre @ i # post"
          "k + length (filter (\<lambda>x. instId x \<in> set U) (pre @ [i])) = length U"
          "\<forall>j \<in> set pre. \<not> mayWriteToMemory aa j src" by blast
        show False
        proof (cases pre)
          case Nil
          with p(1,2) False show False by (auto split: if_splits)
        next
          case (Cons b pre')
          with p(1,3) True show False by auto
        qed
      qed
      with True False show ?thesis by (simp add: Let_def)
    next
      case nw: False
      have step: "scanForLastUse aa src U k (a # rest) = scanForLastUse aa src U ?n rest"
        using False nw by (simp add: Let_def)
      have "?found k (a # rest) \<longleftrightarrow> ?found ?n rest"
      proof
        assume "?found k (a # rest)"
        then obtain pre post where p: "a # rest = pre @ i # post"
          "k + length (filter (\<lambda>x. instId x \<in> set U) (pre @ [i])) = length U"
          "k + length (filter (\<lambda>x. instId x \<in> set U) pre) < length U"
          "\<forall>j \<in> set pre. \<not> mayWriteToMemory aa j src" "\<not> ?call i"
          by blast
        show "?found ?n rest"
        proof (cases pre)
          case Nil
          with p(1,2) False show ?thesis by (auto split: if_splits)
        next
          case (Cons b pre')
          with p show ?thesis
            by (intro exI[of _ pre'] exI[of _ post]) (auto split: if_splits)
        qed
      next
        assume "?found ?n rest"
        then obtain pre post where p: "rest = pre @ i # post"
          "?n + length (filter (\<lambda>x. instId x \<in> set U) (pre @ [i])) = length U"
          "?n + length (filter (\<lambda>x. instId x \<in> set U) pre) < length U"
          "\<forall>j \<in> set pre. \<not> mayWriteToMemory aa j src" "\<not> ?call i"
          by blast
        with nw show "?found k (a # rest)"
          by (intro exI[of _ "a # pre"] exI[of _ post]) (auto split: if_splits)
      qed
      with step Cons.IH[OF lt] show ?thesis by simp
    qed
  qed
qed

lemma instsAfter_loadExample:
  "instsAfter (loadExample t) 2 =
     [mkInst 3 (LoadInst (InstResult 1) LoadCopy), mkInst 4 (DestroyAddrInst (InstResult 1)),
      mkInst 5 (DeallocStackInst (InstResult 1)), mkInst 6 (OtherInst [] True)]"
  by (simp add: instsAfter_def blockOf_def getParent_def loadExample_def mkInst_def copyOf_def)

text \<open>
  Claim C2. The modification checker answers the copy itself when no read is recorded.
  With recorded reads it scans the instructions after the copy in block order and
  answers \<open>i\<close> exactly when the block after the copy is \<open>pre @ i # post\<close> where \<open>i\<close> is
  the instruction at which every recorded read has been passed (the reads counted in
  \<open>pre @ [i]\<close> are all of them, those in \<open>pre\<close> are not: \<open>i\<close> is the last-matched read),
  no instruction of \<open>pre\<close> may write to the source of the copy, and \<open>i\<close> is not a
  call-like or yield instruction that may write to it. In every other case the answer
  is \<open>None\<close>, the failure on which no rewrite occurs.
\<close>

theorem getLastUse_is_last_matched_read:
  "getLastUseWhileSourceIsNotModified f copyInst copySrc useInsts aa = Some i \<longleftrightarrow>
     (if useInsts = [] then i = copyInst
      else \<exists>pre post. instsAfter f (instId copyInst) = pre @ i # post
        \<and> length (filter (\<lambda>x. instId x \<in> set useInsts) (pre @ [i])) = length useInsts
        \<and> length (filter (\<lambda>x. instId x \<in> set useInsts) pre) < length useInsts
        \<and> (\<forall>j \<in> set pre. \<not> mayWriteToMemory aa j copySrc)
        \<and> \<not> ((isFullApplySite (kind i) \<or> isYieldInst (kind i)) \<and> mayWriteToMemory aa i copySrc))"
proof (cases "useInsts = []")
  case True
  then show ?thesis by (auto simp: getLastUseWhileSourceIsNotModified_def)
next
  case False
  then have "0 < length useInsts" by simp
  from scanForLastUse_Some_iff[OF this, of aa copySrc "instsAfter f (instId copyInst)" i] False
  show ?thesis by (simp add: getLastUseWhileSourceIsNotModified_def)
qed

theorem getLastUse_is_last_matched_read_witness:
  "getLastUseWhileSourceIsNotModified (loadExample False) (copyOf False) srcArg [4, 3] quietAnalyses
     = Some (mkInst 4 (DestroyAddrInst (InstResult 1)))
   \<and> (\<exists>pre post. instsAfter (loadExample False) (instId (copyOf False))
          = pre @ mkInst 4 (DestroyAddrInst (InstResult 1)) # post
        \<and> length (filter (\<lambda>x. instId x \<in> set [4, 3]) pre) < length [4, 3::nat])
   \<and> getLastUseWhileSourceIsNotModified (loadExample False) (copyOf False) srcArg [4, 3] writingCall
     = None
   \<and> getLastUseWhileSourceIsNotModified (loadExample False) (copyOf False) srcArg [] writingCall
     = Some (copyOf False)"
proof -
  have a: "getLastUseWhileSourceIsNotModified (loadExample False) (copyOf False) srcArg [4, 3]
      quietAnalyses = Some (mkInst 4 (DestroyAddrInst (InstResult 1)))"
    by (simp add: getLastUseWhileSourceIsNotModified_def instsAfter_loadExample mkInst_def
        quietAnalyses_def copyOf_def)
  from getLastUse_is_last_matched_read[THEN iffD1, OF a]
  have b: "\<exists>pre post. instsAfter (loadExample False) (instId (copyOf False))
          = pre @ mkInst 4 (DestroyAddrInst (InstResult 1)) # post
        \<and> length (filter (\<lambda>x. instId x \<in> set [4, 3]) pre) < length [4, 3::nat]"
    by (simp del: set_simps) blast
  have c: "getLastUseWhileSourceIsNotModified (loadExample False) (copyOf False) srcArg [4, 3]
      writingCall = None"
    by (simp add: getLastUseWhileSourceIsNotModified_def instsAfter_loadExample mkInst_def
        quietAnalyses_def writingCall_def copyOf_def)
  have d: "getLastUseWhileSourceIsNotModified (loadExample False) (copyOf False) srcArg []
      writingCall = Some (copyOf False)"
    using getLastUse_is_last_matched_read[of "loadExample False" "copyOf False" srcArg "[]"
        writingCall "copyOf False"] by simp
  from a b c d show ?thesis by blast
qed

section \<open>The same-block rule of the use collector\<close>

lemma insertSameBlock_Rejected:
  "\<exists>x \<in> set xs. getParent f (instId x) \<noteq> block \<Longrightarrow> insertSameBlock f block xs l = Rejected"
  by (induction xs arbitrary: l) auto

lemma visitEndScope_Rejected:
  "\<forall>u \<in> set ops. (\<exists>v. kind (opUser u) = EndBorrowInst v) \<or> (\<exists>vs. kind (opUser u) = BranchInst vs) \<Longrightarrow>
   \<exists>u \<in> set ops. getParent f (instId (opUser u)) \<noteq> block \<Longrightarrow>
   visitEndScope f block ops l = Rejected"
proof (induction ops arbitrary: l)
  case Nil
  then show ?case by simp
next
  case (Cons a ops)
  show ?case
  proof (cases "getParent f (instId (opUser a)) \<noteq> block")
    case True
    with Cons.prems(1) show ?thesis by auto
  next
    case False
    with Cons.prems have "\<exists>u \<in> set ops. getParent f (instId (opUser u)) \<noteq> block" by auto
    with Cons.IH Cons.prems(1) have "visitEndScope f block ops l' = Rejected" for l' by simp
    with Cons.prems(1) False show ?thesis by auto
  qed
qed

lemma scopeEndingUses_kinds:
  "\<forall>u \<in> set (scopeEndingUses f b). (\<exists>v. kind (opUser u) = EndBorrowInst v) \<or> (\<exists>vs. kind (opUser u) = BranchInst vs)"
  by (auto simp: scopeEndingUses_def split: inst_kind.splits)

lemma collectLoadsFromUses_Accepted_all:
  "collectLoadsFromUses depth f us c d l = Accepted l' \<Longrightarrow> u \<in> set us \<Longrightarrow>
   \<exists>l1 l2. collectLoads depth f u c d l1 = Accepted l2"
proof (induction us arbitrary: l)
  case Nil
  then show ?case by simp
next
  case (Cons a us)
  then show ?case by (auto split: check.splits)
qed

text \<open>
  Claim C3. \<open>collectLoads\<close> answers \<open>false\<close> on every use it examines whose user is not
  in the block of the initializing copy. It does so too when the user is a begin-access
  of kind Read one of whose end-accesses is in another block, when the user is a
  begin-apply whose token has a use in another block, and when the user is a
  load-borrow one of whose end-borrows is in another block. The loop over the uses of
  a projection (or of a mark-dependence) does not answer \<open>true\<close> when one of these uses is
  in another block.
\<close>

theorem collectLoads_rejects_other_block:
  "(getParent f (instId (opUser addressUse)) \<noteq> getParent f originalCopy \<longrightarrow>
      collectLoads (Suc depth) f addressUse originalCopy copyDest loadInsts = Rejected)
   \<and> ((\<exists>a. kind (opUser addressUse) = BeginAccessInst a AccessRead)
       \<and> (\<exists>e \<in> set (getEndAccesses f (opUser addressUse)).
             getParent f (instId e) \<noteq> getParent f originalCopy) \<longrightarrow>
      collectLoads (Suc depth) f addressUse originalCopy copyDest loadInsts = Rejected)
   \<and> ((\<exists>callee args. kind (opUser addressUse) = BeginApplyInst callee args)
       \<and> (\<exists>tokenUse \<in> set (getUses f (TokenResult (instId (opUser addressUse)))).
             getParent f (instId (opUser tokenUse)) \<noteq> getParent f originalCopy) \<longrightarrow>
      collectLoads (Suc depth) f addressUse originalCopy copyDest loadInsts = Rejected)
   \<and> ((\<exists>a. kind (opUser addressUse) = LoadBorrowInst a)
       \<and> (\<exists>u \<in> set (getUses f (InstResult (instId (opUser addressUse)))).
             (\<exists>v. kind (opUser u) = EndBorrowInst v)
             \<and> getParent f (instId (opUser u)) \<noteq> getParent f originalCopy) \<longrightarrow>
      collectLoads (Suc depth) f addressUse originalCopy copyDest loadInsts = Rejected)
   \<and> ((\<exists>u \<in> set uses. getParent f (instId (opUser u)) \<noteq> getParent f originalCopy) \<longrightarrow>
      (\<forall>l'. collectLoadsFromUses depth' f uses originalCopy copyDest loadInsts \<noteq> Accepted l'))"
proof (intro conjI impI)
  assume "getParent f (instId (opUser addressUse)) \<noteq> getParent f originalCopy"
  then show "collectLoads (Suc depth) f addressUse originalCopy copyDest loadInsts = Rejected"
    by (simp add: Let_def)
next
  assume a: "(\<exists>a. kind (opUser addressUse) = BeginAccessInst a AccessRead)
       \<and> (\<exists>e \<in> set (getEndAccesses f (opUser addressUse)).
             getParent f (instId e) \<noteq> getParent f originalCopy)"
  then have "insertSameBlock f (getParent f originalCopy)
      (getEndAccesses f (opUser addressUse)) l = Rejected" for l
    by (intro insertSameBlock_Rejected) auto
  with a show "collectLoads (Suc depth) f addressUse originalCopy copyDest loadInsts = Rejected"
    by (auto simp: Let_def)
next
  assume a: "(\<exists>callee args. kind (opUser addressUse) = BeginApplyInst callee args)
       \<and> (\<exists>tokenUse \<in> set (getUses f (TokenResult (instId (opUser addressUse)))).
             getParent f (instId (opUser tokenUse)) \<noteq> getParent f originalCopy)"
  then have "insertSameBlock f (getParent f originalCopy)
      (map opUser (getUses f (TokenResult (instId (opUser addressUse))))) l = Rejected" for l
    by (intro insertSameBlock_Rejected) auto
  with a show "collectLoads (Suc depth) f addressUse originalCopy copyDest loadInsts = Rejected"
    by (auto simp: Let_def)
next
  assume a: "(\<exists>a. kind (opUser addressUse) = LoadBorrowInst a)
       \<and> (\<exists>u \<in> set (getUses f (InstResult (instId (opUser addressUse)))).
             (\<exists>v. kind (opUser u) = EndBorrowInst v)
             \<and> getParent f (instId (opUser u)) \<noteq> getParent f originalCopy)"
  then have "\<exists>u \<in> set (scopeEndingUses f (opUser addressUse)).
      getParent f (instId (opUser u)) \<noteq> getParent f originalCopy"
    by (auto simp: scopeEndingUses_def)
  with scopeEndingUses_kinds
  have "visitEndScope f (getParent f originalCopy) (scopeEndingUses f (opUser addressUse)) l
      = Rejected" for l
    by (rule visitEndScope_Rejected)
  with a show "collectLoads (Suc depth) f addressUse originalCopy copyDest loadInsts = Rejected"
    by (auto simp: Let_def)
next
  assume "\<exists>u \<in> set uses. getParent f (instId (opUser u)) \<noteq> getParent f originalCopy"
  then obtain u where u: "u \<in> set uses"
    "getParent f (instId (opUser u)) \<noteq> getParent f originalCopy"
    by blast
  show "\<forall>l'. collectLoadsFromUses depth' f uses originalCopy copyDest loadInsts \<noteq> Accepted l'"
  proof (intro allI notI)
    fix l'
    assume "collectLoadsFromUses depth' f uses originalCopy copyDest loadInsts = Accepted l'"
    from collectLoadsFromUses_Accepted_all[OF this u(1)] u(2) show False
      by (cases depth') (simp_all add: Let_def)
  qed
qed

lemma getParent_strayLoadExample:
  "getParent strayLoadExample 2 = Some 0" "getParent strayLoadExample 3 = Some 1"
  by (simp_all add: getParent_def strayLoadExample_def mkInst_def copyOf_def)

theorem collectLoads_rejects_other_block_witness:
  "collectLoads (Suc 0) strayLoadExample
     (useOf (mkInst 3 (LoadInst (InstResult 1) LoadCopy)) 0 (InstResult 1)) 2 (InstResult 1) []
   = Rejected"
proof -
  have "getParent strayLoadExample
          (instId (opUser (useOf (mkInst 3 (LoadInst (InstResult 1) LoadCopy)) 0 (InstResult 1))))
        \<noteq> getParent strayLoadExample 2"
    by (simp add: getParent_strayLoadExample useOf_def mkInst_def)
  with collectLoads_rejects_other_block[of strayLoadExample
      "useOf (mkInst 3 (LoadInst (InstResult 1) LoadCopy)) 0 (InstResult 1)" 2 0 "InstResult 1" "[]"]
  show ?thesis by blast
qed

section \<open>Consuming reads of the temporary\<close>

text \<open>
  Claim C4. On a use in the block of the copy: a load is rejected when it is a take
  of an address other than the whole temporary (the destination of the initializing
  copy), and recorded as a terminal read otherwise; a copy-address is rejected when
  its destination is the examined address, rejected when it takes its source and the
  examined address is not the whole temporary, and recorded as a terminal read
  otherwise.
\<close>

theorem collectLoads_take_of_whole_temporary:
  "getParent f (instId (opUser addressUse)) = getParent f originalCopy \<Longrightarrow>
   (kind (opUser addressUse) = LoadInst a qualifier \<longrightarrow>
      collectLoads (Suc depth) f addressUse originalCopy copyDest loadInsts =
        (if qualifier = LoadTake \<and> opValue addressUse \<noteq> copyDest then Rejected
         else Accepted (List.insert (instId (opUser addressUse)) loadInsts)))
   \<and> (kind (opUser addressUse) = CopyAddrInst src dest isTakeOfSrc isInit \<longrightarrow>
      collectLoads (Suc depth) f addressUse originalCopy copyDest loadInsts =
        (if dest = opValue addressUse then Rejected
         else if isTakeOfSrc \<and> opValue addressUse \<noteq> copyDest then Rejected
         else Accepted (List.insert (instId (opUser addressUse)) loadInsts)))"
  by (simp add: Let_def)

text \<open>
  In \<open>loadExample\<close>: a take of the whole temporary is recorded, a take of a projection
  of it (the address \<open>%9\<close>) is rejected, and a copy into the temporary is rejected.
\<close>

lemma getParent_loadExample:
  "getParent (loadExample t) 2 = Some 0" "getParent (loadExample t) 3 = Some 0"
  by (simp_all add: getParent_def loadExample_def mkInst_def copyOf_def)

theorem collectLoads_take_of_whole_temporary_witness:
  "collectLoads (Suc 0) (loadExample False)
     (useOf (mkInst 3 (LoadInst (InstResult 1) LoadTake)) 0 (InstResult 1)) 2 (InstResult 1) []
     = Accepted [3]
   \<and> collectLoads (Suc 0) (loadExample False)
     (useOf (mkInst 3 (LoadInst (InstResult 9) LoadTake)) 0 (InstResult 9)) 2 (InstResult 1) []
     = Rejected
   \<and> collectLoads (Suc 0) (loadExample False)
     (useOf (mkInst 3 (CopyAddrInst srcArg (InstResult 1) False False)) 1 (InstResult 1)) 2
     (InstResult 1) []
     = Rejected"
proof -
  have p: "getParent (loadExample False) (instId (opUser (useOf (mkInst 3 k) n v)))
      = getParent (loadExample False) 2" for k n v
    by (simp add: getParent_loadExample useOf_def mkInst_def)
  have a: "collectLoads (Suc 0) (loadExample False)
     (useOf (mkInst 3 (LoadInst (InstResult 1) LoadTake)) 0 (InstResult 1)) 2 (InstResult 1) []
     = Accepted [3]"
    using collectLoads_take_of_whole_temporary[OF p, where a = "InstResult 1"
        and qualifier = LoadTake and depth = 0 and copyDest = "InstResult 1" and loadInsts = "[]"
        and k1 = "LoadInst (InstResult 1) LoadTake" and n1 = 0 and v1 = "InstResult 1"]
    by (simp add: useOf_def mkInst_def)
  have b: "collectLoads (Suc 0) (loadExample False)
     (useOf (mkInst 3 (LoadInst (InstResult 9) LoadTake)) 0 (InstResult 9)) 2 (InstResult 1) []
     = Rejected"
    using collectLoads_take_of_whole_temporary[OF p, where a = "InstResult 9"
        and qualifier = LoadTake and depth = 0 and copyDest = "InstResult 1" and loadInsts = "[]"
        and k1 = "LoadInst (InstResult 9) LoadTake" and n1 = 0 and v1 = "InstResult 9"]
    by (simp add: useOf_def mkInst_def)
  have c: "collectLoads (Suc 0) (loadExample False)
     (useOf (mkInst 3 (CopyAddrInst srcArg (InstResult 1) False False)) 1 (InstResult 1)) 2
     (InstResult 1) []
     = Rejected"
    using collectLoads_take_of_whole_temporary[OF p, where src = srcArg
        and dest = "InstResult 1" and isTakeOfSrc = False and isInit = False
        and depth = 0 and copyDest = "InstResult 1" and loadInsts = "[]"
        and k1 = "CopyAddrInst srcArg (InstResult 1) False False" and n1 = 1
        and v1 = "InstResult 1"]
    by (simp add: useOf_def mkInst_def)
  from a b c show ?thesis by blast
qed

section \<open>Destroys and deallocations of the temporary in other blocks\<close>

text \<open>
  Claim C10. In the loop of the rewriter over the uses of the temporary, a
  deallocate-stack use is passed over whatever its block. A destroy-address use is
  passed over whatever its block when the function is under ownership or the
  initializing copy does not take its source. Only without ownership and with a copy
  that takes its source is the block of a destroy-address looked at: in another block
  than the copy it disqualifies the candidate, in the block of the copy it is recorded
  as a terminal read.
\<close>

theorem destroy_and_dealloc_block_rule:
  "instId (opUser useOper) \<noteq> instId copyInst \<Longrightarrow>
   (isDeallocStackInst (kind (opUser useOper)) \<longrightarrow>
      collectTempUses f copyInst tempObj isOSSA needFinalDeinit (useOper # uses) loadInsts
        = collectTempUses f copyInst tempObj isOSSA needFinalDeinit uses loadInsts)
   \<and> (isDestroyAddrInst (kind (opUser useOper)) \<and> (isOSSA \<or> \<not> needFinalDeinit) \<longrightarrow>
      collectTempUses f copyInst tempObj isOSSA needFinalDeinit (useOper # uses) loadInsts
        = collectTempUses f copyInst tempObj isOSSA needFinalDeinit uses loadInsts)
   \<and> (isDestroyAddrInst (kind (opUser useOper)) \<and> \<not> isOSSA \<and> needFinalDeinit \<longrightarrow>
      collectTempUses f copyInst tempObj isOSSA needFinalDeinit (useOper # uses) loadInsts
        = (if getParent f (instId (opUser useOper)) \<noteq> getParent f (instId copyInst) then Rejected
           else collectTempUses f copyInst tempObj isOSSA needFinalDeinit uses
                  (List.insert (instId (opUser useOper)) loadInsts)))"
  by (cases "kind (opUser useOper)") (auto simp: Let_def)

text \<open>
  In \<open>splitExample\<close> the destroy and the deallocation are in the second block. Under
  ownership the loop passes over both and the rewrite is done; without ownership and
  with a copy that takes its source the destroy disqualifies the candidate.
\<close>

theorem destroy_and_dealloc_block_rule_witness:
  "collectTempUses (splitExample True True) (copyOf True) (InstResult 1) True True
     [useOf (mkInst 5 (DestroyAddrInst (InstResult 1))) 0 (InstResult 1),
      useOf (mkInst 6 (DeallocStackInst (InstResult 1))) 0 (InstResult 1)] []
     = Accepted []
   \<and> collectTempUses (splitExample True False) (copyOf True) (InstResult 1) False True
     [useOf (mkInst 5 (DestroyAddrInst (InstResult 1))) 0 (InstResult 1),
      useOf (mkInst 6 (DeallocStackInst (InstResult 1))) 0 (InstResult 1)] []
     = Rejected
   \<and> tryOptimizeCopyIntoTemp quietAnalyses (splitExample True True) (copyOf True)
     = Some \<lparr>blocks = [[mkInst 2 (CopyAddrInst srcArg srcArg True True),
                        mkInst 3 (LoadInst srcArg LoadCopy),
                        mkInst 8 (DestroyAddrInst srcArg),
                        mkInst 4 (BranchInst [])],
                       [mkInst 7 (OtherInst [] True)]],
             hasOwnership = True\<rparr>
   \<and> tryOptimizeCopyIntoTemp quietAnalyses (splitExample True False) (copyOf True)
     = Some (splitExample True False)"
proof -
  let ?d = "useOf (mkInst 5 (DestroyAddrInst (InstResult 1))) 0 (InstResult 1)"
  let ?s = "useOf (mkInst 6 (DeallocStackInst (InstResult 1))) 0 (InstResult 1)"
  have ne: "instId (opUser ?d) \<noteq> instId (copyOf t)" "instId (opUser ?s) \<noteq> instId (copyOf t)" for t
    by (simp_all add: useOf_def mkInst_def copyOf_def)
  have a: "collectTempUses (splitExample True True) (copyOf True) (InstResult 1) True True
      [?d, ?s] [] = Accepted []"
    using destroy_and_dealloc_block_rule[OF ne(1), where f = "splitExample True True"
        and tempObj = "InstResult 1" and isOSSA = True and needFinalDeinit = True
        and uses = "[?s]" and loadInsts = "[]"]
      destroy_and_dealloc_block_rule[OF ne(2), where f = "splitExample True True"
        and tempObj = "InstResult 1" and isOSSA = True and needFinalDeinit = True
        and uses = "[]" and loadInsts = "[]"]
    by (simp add: useOf_def mkInst_def)
  have "getParent (splitExample True False) (instId (opUser ?d))
      \<noteq> getParent (splitExample True False) (instId (copyOf True))"
    by (simp add: getParent_def splitExample_def useOf_def mkInst_def copyOf_def)
  then have b: "collectTempUses (splitExample True False) (copyOf True) (InstResult 1) False True
      [?d, ?s] [] = Rejected"
    using destroy_and_dealloc_block_rule[OF ne(1), where f = "splitExample True False"
        and tempObj = "InstResult 1" and isOSSA = False and needFinalDeinit = True
        and uses = "[?s]" and loadInsts = "[]"]
    by (simp add: useOf_def mkInst_def)
  have c: "tryOptimizeCopyIntoTemp quietAnalyses (splitExample True True) (copyOf True)
     = Some \<lparr>blocks = [[mkInst 2 (CopyAddrInst srcArg srcArg True True),
                        mkInst 3 (LoadInst srcArg LoadCopy),
                        mkInst 8 (DestroyAddrInst srcArg),
                        mkInst 4 (BranchInst [])],
                       [mkInst 7 (OtherInst [] True)]],
             hasOwnership = True\<rparr>"
    by code_simp
  have d: "tryOptimizeCopyIntoTemp quietAnalyses (splitExample True False) (copyOf True)
     = Some (splitExample True False)"
    by code_simp
  from a b c d show ?thesis by blast
qed

section \<open>Disqualification leaves the function as it is\<close>

lemma copyChecks_Rejected_iff:
  "copyChecks aa f copyInst copySrc needFinalDeinit tempObj = Rejected \<longleftrightarrow>
     (collectTempUses f copyInst (InstResult (instId tempObj)) (hasOwnership f) needFinalDeinit
        (getUses f (InstResult (instId tempObj))) [] = Rejected
      \<or> (\<exists>loadInsts.
            collectTempUses f copyInst (InstResult (instId tempObj)) (hasOwnership f) needFinalDeinit
              (getUses f (InstResult (instId tempObj))) [] = Accepted loadInsts
            \<and> ((\<exists>i \<in> set (instsBefore f (instId copyInst)).
                   instId i \<in> set (map (instId \<circ> opUser) (getUses f (InstResult (instId tempObj)))))
               \<or> getLastUseWhileSourceIsNotModified f copyInst copySrc loadInsts aa = None
               \<or> (\<exists>lastLoadInst.
                     getLastUseWhileSourceIsNotModified f copyInst copySrc loadInsts aa
                       = Some lastLoadInst
                     \<and> ((needFinalDeinit \<and> instId lastLoadInst \<noteq> instId copyInst
                          \<and> \<not> isDestroyAddrInst (kind lastLoadInst)
                          \<and> mayWriteToMemory aa lastLoadInst copySrc)
                        \<or> (\<not> hasOwnership f
                            \<and> checkTempObjectDestroy aa f tempObj copyInst = Rejected)
                        \<or> ((hasOwnership f
                              \<or> checkTempObjectDestroy aa f tempObj copyInst = Accepted ())
                            \<and> extendAccessScopes aa f copyInst copySrc lastLoadInst = Rejected))))))"
  unfolding copyChecks_def Let_def
  by (auto split: check.splits option.splits if_splits)

text \<open>
  Claim C7. When a check of the copy rewriter fails, the rewriter returns the function
  it was given: on a copy that does not initialize its destination, on a destination
  that is no stack allocation, when the lexical guard fails, and when, the source not
  being the temporary itself, use collection answers \<open>false\<close>, or a user of the
  temporary precedes the copy, or no boundary is found, or the boundary may
  re-initialize the taken source, or (without ownership) the destroy pattern is
  refused, or the scope extender answers \<open>false\<close>. The scope extender returns its moved
  function only with \<open>true\<close>, so a failure of it at any point changes nothing either.
\<close>

theorem disqualified_copy_is_unmodified:
  "kind copyInst = CopyAddrInst copySrc dest isTakeOfSrc isInit \<Longrightarrow>
   \<not> isInit
   \<or> asAllocStackInst f dest = None
   \<or> (\<exists>tempObj isLexical hasDynamicLifetime isMoveOnly.
        asAllocStackInst f dest = Some (tempObj, isLexical, hasDynamicLifetime, isMoveOnly)
        \<and> (lexicalGuardFails aa isLexical copySrc
           \<or> InstResult (instId tempObj) \<noteq> copySrc
             \<and> (collectTempUses f copyInst (InstResult (instId tempObj)) (hasOwnership f)
                   isTakeOfSrc (getUses f (InstResult (instId tempObj))) [] = Rejected
                \<or> (\<exists>loadInsts.
                      collectTempUses f copyInst (InstResult (instId tempObj)) (hasOwnership f)
                        isTakeOfSrc (getUses f (InstResult (instId tempObj))) []
                        = Accepted loadInsts
                      \<and> ((\<exists>i \<in> set (instsBefore f (instId copyInst)).
                             instId i \<in> set (map (instId \<circ> opUser)
                                                (getUses f (InstResult (instId tempObj)))))
                         \<or> getLastUseWhileSourceIsNotModified f copyInst copySrc loadInsts aa
                             = None
                         \<or> (\<exists>lastLoadInst.
                               getLastUseWhileSourceIsNotModified f copyInst copySrc loadInsts aa
                                 = Some lastLoadInst
                               \<and> ((isTakeOfSrc \<and> instId lastLoadInst \<noteq> instId copyInst
                                    \<and> \<not> isDestroyAddrInst (kind lastLoadInst)
                                    \<and> mayWriteToMemory aa lastLoadInst copySrc)
                                  \<or> (\<not> hasOwnership f
                                      \<and> checkTempObjectDestroy aa f tempObj copyInst = Rejected)
                                  \<or> ((hasOwnership f
                                        \<or> checkTempObjectDestroy aa f tempObj copyInst
                                            = Accepted ())
                                      \<and> extendAccessScopes aa f copyInst copySrc lastLoadInst
                                          = Rejected))))))))
   \<Longrightarrow> tryOptimizeCopyIntoTemp aa f copyInst = Some f"
proof -
  assume k: "kind copyInst = CopyAddrInst copySrc dest isTakeOfSrc isInit"
  assume h: "\<not> isInit
   \<or> asAllocStackInst f dest = None
   \<or> (\<exists>tempObj isLexical hasDynamicLifetime isMoveOnly.
        asAllocStackInst f dest = Some (tempObj, isLexical, hasDynamicLifetime, isMoveOnly)
        \<and> (lexicalGuardFails aa isLexical copySrc
           \<or> InstResult (instId tempObj) \<noteq> copySrc
             \<and> (collectTempUses f copyInst (InstResult (instId tempObj)) (hasOwnership f)
                   isTakeOfSrc (getUses f (InstResult (instId tempObj))) [] = Rejected
                \<or> (\<exists>loadInsts.
                      collectTempUses f copyInst (InstResult (instId tempObj)) (hasOwnership f)
                        isTakeOfSrc (getUses f (InstResult (instId tempObj))) []
                        = Accepted loadInsts
                      \<and> ((\<exists>i \<in> set (instsBefore f (instId copyInst)).
                             instId i \<in> set (map (instId \<circ> opUser)
                                                (getUses f (InstResult (instId tempObj)))))
                         \<or> getLastUseWhileSourceIsNotModified f copyInst copySrc loadInsts aa
                             = None
                         \<or> (\<exists>lastLoadInst.
                               getLastUseWhileSourceIsNotModified f copyInst copySrc loadInsts aa
                                 = Some lastLoadInst
                               \<and> ((isTakeOfSrc \<and> instId lastLoadInst \<noteq> instId copyInst
                                    \<and> \<not> isDestroyAddrInst (kind lastLoadInst)
                                    \<and> mayWriteToMemory aa lastLoadInst copySrc)
                                  \<or> (\<not> hasOwnership f
                                      \<and> checkTempObjectDestroy aa f tempObj copyInst = Rejected)
                                  \<or> ((hasOwnership f
                                        \<or> checkTempObjectDestroy aa f tempObj copyInst
                                            = Accepted ())
                                      \<and> extendAccessScopes aa f copyInst copySrc lastLoadInst
                                          = Rejected))))))))"
    (is "_ \<or> _ \<or> (\<exists>tempObj isLexical hasDynamicLifetime isMoveOnly.
            ?A tempObj isLexical hasDynamicLifetime isMoveOnly
            \<and> (?L isLexical \<or> ?N tempObj \<and> ?D tempObj))")
  show ?thesis
  proof (cases "\<not> isInit \<or> asAllocStackInst f dest = None")
    case True
    with k show ?thesis by (auto simp: tryOptimizeCopyIntoTemp_def)
  next
    case False
    with h obtain tempObj isLexical hasDynamicLifetime isMoveOnly where
      t: "asAllocStackInst f dest = Some (tempObj, isLexical, hasDynamicLifetime, isMoveOnly)"
      and d: "?L isLexical \<or> ?N tempObj \<and> ?D tempObj"
      by blast
    show ?thesis
    proof (cases "?L isLexical")
      case True
      with k t show ?thesis by (simp add: tryOptimizeCopyIntoTemp_def)
    next
      case False
      with d have n: "?N tempObj" and "?D tempObj" by blast+
      then have "copyChecks aa f copyInst copySrc isTakeOfSrc tempObj = Rejected"
        by (simp only: copyChecks_Rejected_iff)
      with k t n False show ?thesis by (simp add: tryOptimizeCopyIntoTemp_def)
    qed
  qed
qed

text \<open>
  In \<open>strayLoadExample\<close> use collection fails on the load of the second block; a copy
  that does not initialize its destination is no candidate.
\<close>

theorem disqualified_copy_is_unmodified_witness:
  "tryOptimizeCopyIntoTemp quietAnalyses strayLoadExample (copyOf False) = Some strayLoadExample
   \<and> tryOptimizeCopyIntoTemp quietAnalyses (loadExample False)
        (mkInst 2 (CopyAddrInst srcArg (InstResult 1) False False))
      = Some (loadExample False)"
proof -
  have k: "kind (copyOf False) = CopyAddrInst srcArg (InstResult 1) False True"
    by (simp add: copyOf_def mkInst_def)
  have t: "asAllocStackInst strayLoadExample (InstResult 1)
      = Some (mkInst 1 (AllocStackInst False False False), False, False, False)"
    by code_simp
  have ne: "InstResult (instId (mkInst 1 (AllocStackInst False False False))) \<noteq> srcArg"
    by (simp add: srcArg_def)
  have r: "collectTempUses strayLoadExample (copyOf False)
      (InstResult (instId (mkInst 1 (AllocStackInst False False False))))
      (hasOwnership strayLoadExample) False
      (getUses strayLoadExample (InstResult (instId (mkInst 1 (AllocStackInst False False False)))))
      [] = Rejected"
    by code_simp
  have a: "tryOptimizeCopyIntoTemp quietAnalyses strayLoadExample (copyOf False)
      = Some strayLoadExample"
    by (rule disqualified_copy_is_unmodified[OF k]) (use t ne r in blast)
  have k2: "kind (mkInst 2 (CopyAddrInst srcArg (InstResult 1) False False))
      = CopyAddrInst srcArg (InstResult 1) False False"
    by (simp add: mkInst_def)
  have b: "tryOptimizeCopyIntoTemp quietAnalyses (loadExample False)
        (mkInst 2 (CopyAddrInst srcArg (InstResult 1) False False))
      = Some (loadExample False)"
    by (rule disqualified_copy_is_unmodified[OF k2]) simp
  from a b show ?thesis by blast
qed

section \<open>Extending an access scope\<close>

lemma scanAccessScopes_append:
  "scanAccessScopes aa f copySrc lastUse m (xs @ ys) =
     (case scanAccessScopes aa f copySrc lastUse m xs of
        Accepted m' \<Rightarrow> scanAccessScopes aa f copySrc lastUse m' ys
      | Rejected \<Rightarrow> Rejected
      | NoReturn \<Rightarrow> NoReturn)"
proof (induction xs arbitrary: m)
  case Nil
  then show ?case by simp
next
  case (Cons a xs)
  show ?case
    by (cases "kind a") (auto simp: Cons.IH split: option.splits)
qed

lemma scanAccessScopes_second_end_access:
  "getBeginAccess f e = Some sk \<Longrightarrow> \<exists>i \<in> set rest. \<exists>v. kind i = EndAccessInst v \<Longrightarrow>
   scanAccessScopes aa f copySrc lastUse (Some e) rest = Rejected"
proof (induction rest)
  case Nil
  then show ?case by simp
next
  case (Cons a rest)
  show ?case
  proof (cases "\<exists>v. kind a = EndAccessInst v")
    case True
    then show ?thesis by auto
  next
    case False
    with Cons.prems have "\<exists>i \<in> set rest. \<exists>v. kind i = EndAccessInst v" by auto
    with Cons have "scanAccessScopes aa f copySrc lastUse (Some e) rest = Rejected" by simp
    with False Cons.prems(1) show ?thesis
      by (cases "kind a"; cases sk) auto
  qed
qed

lemma scanAccessScopes_selected:
  "scanAccessScopes aa f copySrc lastUse m xs = Accepted (Some e) \<Longrightarrow>
   m = Some e \<or>
   (m = None \<and> e \<in> set xs \<and> (\<exists>v. kind e = EndAccessInst v)
    \<and> (\<exists>s. getBeginAccess f e = Some (s, AccessRead) \<and> \<not> isNoAlias aa copySrc s)
    \<and> \<not> isTermInst (kind lastUse))"
proof (induction xs arbitrary: m)
  case Nil
  then show ?case by simp
next
  case (Cons a xs)
  show ?case
  proof (cases "\<exists>v. kind a = EndAccessInst v")
    case True
    with Cons.prems have m: "m = None" by (auto split: if_splits)
    from True Cons.prems m obtain s k where g: "getBeginAccess f a = Some (s, k)"
      by (auto split: option.splits)
    show ?thesis
    proof (cases "\<not> isNoAlias aa copySrc s \<and> k = AccessRead")
      case c: True
      with True Cons.prems m g have t: "\<not> isTermInst (kind lastUse)"
        and r: "scanAccessScopes aa f copySrc lastUse (Some a) xs = Accepted (Some e)"
        by (auto split: if_splits)
      from Cons.IH[OF r] have "a = e" by auto
      with True m g c t show ?thesis by auto
    next
      case c: False
      with True Cons.prems m g
      have "scanAccessScopes aa f copySrc lastUse None xs = Accepted (Some e)"
        by (auto split: if_splits)
      from Cons.IH[OF this] m show ?thesis by auto
    qed
  next
    case False
    show ?thesis
    proof (cases m)
      case None
      with False Cons.prems
      have "scanAccessScopes aa f copySrc lastUse None xs = Accepted (Some e)"
        by (cases "kind a") auto
      from Cons.IH[OF this] None show ?thesis by auto
    next
      case (Some e')
      with False Cons.prems
      have "scanAccessScopes aa f copySrc lastUse (Some e') xs = Accepted (Some e)"
        by (cases "kind a") (auto split: if_splits option.splits)
      from Cons.IH[OF this] Some show ?thesis by auto
    qed
  qed
qed

lemma set_insertAfterIn:
  "set (insertAfterIn l e b) = set b \<union> (if l \<in> instId ` set b then {e} else {})"
  by (induction b) auto

lemma findBlock_map_cong:
  "\<forall>b \<in> set bs. l \<in> instId ` set (g b) \<longleftrightarrow> l \<in> instId ` set b \<Longrightarrow>
   findBlock (map g bs) l n = findBlock bs l n"
  by (induction bs arbitrary: n) auto

lemma findBlock_Some:
  "findBlock bs l n = Some k \<Longrightarrow> n \<le> k \<and> k - n < length bs \<and> l \<in> instId ` set (bs ! (k - n))"
proof (induction bs arbitrary: n)
  case Nil
  then show ?case by simp
next
  case (Cons b bs)
  show ?case
  proof (cases "l \<in> instId ` set b")
    case True
    with Cons.prems show ?thesis by simp
  next
    case False
    with Cons.prems have "findBlock bs l (Suc n) = Some k" by simp
    from Cons.IH[OF this] have i: "Suc n \<le> k" "k - Suc n < length bs"
      "l \<in> instId ` set (bs ! (k - Suc n))"
      by auto
    from i(1) have "k - n = Suc (k - Suc n)" by arith
    with i show ?thesis by simp
  qed
qed

lemma findBlock_None_iff: "findBlock bs l n = None \<longleftrightarrow> l \<notin> instId ` set (concat bs)"
  by (induction bs arbitrary: n) auto

lemma dropWhile_insertAfterIn:
  "l \<in> instId ` set b \<Longrightarrow>
   tl (dropWhile (\<lambda>x. instId x \<noteq> l) (insertAfterIn l e b)) = e # tl (dropWhile (\<lambda>x. instId x \<noteq> l) b)"
  by (induction b) auto

lemma instsAfter_moveAfter:
  assumes "l \<in> instId ` set (allInsts f)" "instId e \<noteq> l"
  shows "instsAfter (moveAfter f e l) l = e # instsAfter (eraseFromParent f (instId e)) l"
proof -
  let ?f1 = "eraseFromParent f (instId e)"
  have in1: "l \<in> instId ` set (allInsts ?f1)"
    using assms by (auto simp: allInsts_eraseFromParent)
  then obtain k where k: "findBlock (blocks ?f1) l 0 = Some k"
    by (cases "findBlock (blocks ?f1) l 0") (auto simp: findBlock_None_iff allInsts_def)
  from findBlock_Some[OF k] have kb: "k < length (blocks ?f1)" "l \<in> instId ` set (blocks ?f1 ! k)"
    by auto
  have "findBlock (map (insertAfterIn l e) (blocks ?f1)) l 0 = findBlock (blocks ?f1) l 0"
    by (rule findBlock_map_cong) (auto simp: set_insertAfterIn assms(2))
  with k kb have "blockOf (moveAfter f e l) l = insertAfterIn l e (blockOf ?f1 l)"
    using assms(2) by (simp add: blockOf_def getParent_def moveAfter_def insertAfter_def)
  moreover from k kb have "l \<in> instId ` set (blockOf ?f1 l)"
    by (simp add: blockOf_def getParent_def)
  ultimately show ?thesis
    by (simp add: instsAfter_def dropWhile_insertAfterIn)
qed


lemma scanAccessScopes_no_end_access:
  "\<forall>i \<in> set xs. \<forall>v. kind i \<noteq> EndAccessInst v \<Longrightarrow>
   scanAccessScopes aa f copySrc lastUse None xs = Accepted None"
proof (induction xs)
  case Nil
  then show ?case by simp
next
  case (Cons a xs)
  then have "scanAccessScopes aa f copySrc lastUse None xs = Accepted None" by simp
  with Cons.prems show ?case by (cases "kind a") auto
qed

lemma scanAccessScopes_over_reads:
  "getBeginAccess f e = Some (s, k) \<Longrightarrow>
   \<forall>i \<in> set xs. (\<forall>v. kind i \<noteq> EndAccessInst v) \<and> \<not> isBeginAccessInst (kind i)
      \<and> \<not> isBeginUnpairedAccessInst (kind i) \<and> \<not> mayWriteToMemory aa i s \<Longrightarrow>
   scanAccessScopes aa f copySrc lastUse (Some e) xs = Accepted (Some e)"
proof (induction xs)
  case Nil
  then show ?case by simp
next
  case (Cons a xs)
  then have "scanAccessScopes aa f copySrc lastUse (Some e) xs = Accepted (Some e)" by simp
  with Cons.prems show ?case by (cases "kind a") auto
qed

lemma scanAccessScopes_keeps:
  "scanAccessScopes aa f copySrc lastUse (Some e) xs = Accepted m \<Longrightarrow>
   m = Some e \<and> (\<forall>i \<in> set xs. \<forall>v. kind i \<noteq> EndAccessInst v)"
proof (induction xs)
  case Nil
  then show ?case by simp
next
  case (Cons a xs)
  show ?case
  proof (cases "\<exists>v. kind a = EndAccessInst v")
    case True
    with Cons.prems show ?thesis by auto
  next
    case False
    with Cons.prems have "scanAccessScopes aa f copySrc lastUse (Some e) xs = Accepted m"
      by (cases "kind a") (auto split: if_splits option.splits)
    from Cons.IH[OF this] False show ?thesis by auto
  qed
qed

lemma extendAccessScopes_Accepted_scan:
  "extendAccessScopes aa f copyInst copySrc lastUseInst = Accepted f' \<Longrightarrow>
   \<exists>m. scanAccessScopes aa f copySrc lastUseInst None
          (instsBetween f (instId copyInst) (instId lastUseInst)) = Accepted m
     \<and> f' = (case m of None \<Rightarrow> f | Some e \<Rightarrow> moveAfter f e (instId lastUseInst))"
  by (auto simp: extendAccessScopes_def split: check.splits option.splits)

text \<open>
  Claim C5. Let the range from just after the copy to the boundary be \<open>pre @ e # rest\<close>,
  with no end-access selected in \<open>pre\<close> and \<open>e\<close> an end-access of a Read scope that may
  alias the source: \<open>e\<close> is selected. Then the extension fails when the boundary is a
  terminator, and it fails when \<open>rest\<close> holds another end-access (a second candidate in
  particular). When the extension succeeds, the function is unchanged or exactly one
  end-access of the range has been moved, and that one stands immediately after the
  boundary instruction. More precisely, when the extension succeeds with \<open>e\<close> selected,
  the result is the function with \<open>e\<close>, and no other instruction, moved: \<open>e\<close> is the first
  instruction after the boundary, the boundary is not a terminator and \<open>rest\<close> holds no
  end-access. When the range holds no end-access of a Read scope that may alias the
  source and the extension succeeds, the function is unchanged. The extension does
  succeed, with \<open>e\<close> moved, when the boundary is not a terminator and \<open>rest\<close> holds no
  end-access, no begin-access and no instruction that may write to the source of the
  scope of \<open>e\<close>; and it succeeds, with the function unchanged, when the range holds no
  end-access.
\<close>

theorem scope_extension_moves_one_end_access:
  "(instsBetween f (instId copyInst) (instId lastUseInst) = pre @ e # rest
      \<and> scanAccessScopes aa f copySrc lastUseInst None pre = Accepted None
      \<and> (\<exists>v. kind e = EndAccessInst v)
      \<and> getBeginAccess f e = Some (s, AccessRead) \<and> \<not> isNoAlias aa copySrc s
      \<and> (isTermInst (kind lastUseInst) \<or> (\<exists>i \<in> set rest. \<exists>v. kind i = EndAccessInst v))
    \<longrightarrow> extendAccessScopes aa f copyInst copySrc lastUseInst = Rejected)
   \<and> (extendAccessScopes aa f copyInst copySrc lastUseInst = Accepted f' \<longrightarrow>
        f' = f
        \<or> (\<exists>e \<in> set (instsBetween f (instId copyInst) (instId lastUseInst)).
              (\<exists>v. kind e = EndAccessInst v) \<and> \<not> isTermInst (kind lastUseInst)
              \<and> f' = moveAfter f e (instId lastUseInst)
              \<and> (instId lastUseInst \<in> instId ` set (allInsts f)
                  \<and> instId e \<noteq> instId lastUseInst \<longrightarrow>
                    instsAfter f' (instId lastUseInst)
                      = e # instsAfter (eraseFromParent f (instId e)) (instId lastUseInst))))
   \<and> (instsBetween f (instId copyInst) (instId lastUseInst) = pre @ e # rest
      \<and> scanAccessScopes aa f copySrc lastUseInst None pre = Accepted None
      \<and> (\<exists>v. kind e = EndAccessInst v)
      \<and> getBeginAccess f e = Some (s, AccessRead) \<and> \<not> isNoAlias aa copySrc s
      \<and> extendAccessScopes aa f copyInst copySrc lastUseInst = Accepted f'
    \<longrightarrow> f' = moveAfter f e (instId lastUseInst)
        \<and> \<not> isTermInst (kind lastUseInst)
        \<and> (\<forall>i \<in> set rest. \<forall>v. kind i \<noteq> EndAccessInst v)
        \<and> (instId lastUseInst \<in> instId ` set (allInsts f)
            \<and> instId e \<noteq> instId lastUseInst \<longrightarrow>
              instsAfter f' (instId lastUseInst)
                = e # instsAfter (eraseFromParent f (instId e)) (instId lastUseInst)))
   \<and> ((\<forall>i \<in> set (instsBetween f (instId copyInst) (instId lastUseInst)).
          \<forall>v s. kind i = EndAccessInst v \<and> getBeginAccess f i = Some (s, AccessRead)
            \<longrightarrow> isNoAlias aa copySrc s)
      \<and> extendAccessScopes aa f copyInst copySrc lastUseInst = Accepted f'
    \<longrightarrow> f' = f)
   \<and> (instsBetween f (instId copyInst) (instId lastUseInst) = pre @ e # rest
      \<and> scanAccessScopes aa f copySrc lastUseInst None pre = Accepted None
      \<and> (\<exists>v. kind e = EndAccessInst v)
      \<and> getBeginAccess f e = Some (s, AccessRead) \<and> \<not> isNoAlias aa copySrc s
      \<and> \<not> isTermInst (kind lastUseInst)
      \<and> (\<forall>i \<in> set rest. (\<forall>v. kind i \<noteq> EndAccessInst v) \<and> \<not> isBeginAccessInst (kind i)
            \<and> \<not> isBeginUnpairedAccessInst (kind i) \<and> \<not> mayWriteToMemory aa i s)
    \<longrightarrow> extendAccessScopes aa f copyInst copySrc lastUseInst
          = Accepted (moveAfter f e (instId lastUseInst)))
   \<and> ((\<forall>i \<in> set (instsBetween f (instId copyInst) (instId lastUseInst)).
        \<forall>v. kind i \<noteq> EndAccessInst v)
    \<longrightarrow> extendAccessScopes aa f copyInst copySrc lastUseInst = Accepted f)"
proof -
  have c1: "instsBetween f (instId copyInst) (instId lastUseInst) = pre @ e # rest
      \<and> scanAccessScopes aa f copySrc lastUseInst None pre = Accepted None
      \<and> (\<exists>v. kind e = EndAccessInst v)
      \<and> getBeginAccess f e = Some (s, AccessRead) \<and> \<not> isNoAlias aa copySrc s
      \<and> (isTermInst (kind lastUseInst) \<or> (\<exists>i \<in> set rest. \<exists>v. kind i = EndAccessInst v))
    \<longrightarrow> extendAccessScopes aa f copyInst copySrc lastUseInst = Rejected"
  proof (rule impI)
    assume a: "instsBetween f (instId copyInst) (instId lastUseInst) = pre @ e # rest
        \<and> scanAccessScopes aa f copySrc lastUseInst None pre = Accepted None
        \<and> (\<exists>v. kind e = EndAccessInst v)
        \<and> getBeginAccess f e = Some (s, AccessRead) \<and> \<not> isNoAlias aa copySrc s
        \<and> (isTermInst (kind lastUseInst) \<or> (\<exists>i \<in> set rest. \<exists>v. kind i = EndAccessInst v))"
    then have "scanAccessScopes aa f copySrc lastUseInst None (pre @ e # rest)
        = scanAccessScopes aa f copySrc lastUseInst None (e # rest)"
      by (simp add: scanAccessScopes_append)
    also have "\<dots> = Rejected"
    proof (cases "isTermInst (kind lastUseInst)")
      case True
      with a show ?thesis by auto
    next
      case False
      with a have "\<exists>i \<in> set rest. \<exists>v. kind i = EndAccessInst v" by simp
      with a have "scanAccessScopes aa f copySrc lastUseInst (Some e) rest = Rejected"
        by (intro scanAccessScopes_second_end_access) auto
      with a False show ?thesis by auto
    qed
    finally show "extendAccessScopes aa f copyInst copySrc lastUseInst = Rejected"
      using a by (simp add: extendAccessScopes_def)
  qed
  have c2: "extendAccessScopes aa f copyInst copySrc lastUseInst = Accepted f' \<longrightarrow>
        f' = f
        \<or> (\<exists>e \<in> set (instsBetween f (instId copyInst) (instId lastUseInst)).
              (\<exists>v. kind e = EndAccessInst v) \<and> \<not> isTermInst (kind lastUseInst)
              \<and> f' = moveAfter f e (instId lastUseInst)
              \<and> (instId lastUseInst \<in> instId ` set (allInsts f)
                  \<and> instId e \<noteq> instId lastUseInst \<longrightarrow>
                    instsAfter f' (instId lastUseInst)
                      = e # instsAfter (eraseFromParent f (instId e)) (instId lastUseInst)))"
  proof (rule impI)
    assume a: "extendAccessScopes aa f copyInst copySrc lastUseInst = Accepted f'"
    show "f' = f
          \<or> (\<exists>e \<in> set (instsBetween f (instId copyInst) (instId lastUseInst)).
                (\<exists>v. kind e = EndAccessInst v) \<and> \<not> isTermInst (kind lastUseInst)
                \<and> f' = moveAfter f e (instId lastUseInst)
                \<and> (instId lastUseInst \<in> instId ` set (allInsts f)
                    \<and> instId e \<noteq> instId lastUseInst \<longrightarrow>
                      instsAfter f' (instId lastUseInst)
                        = e # instsAfter (eraseFromParent f (instId e)) (instId lastUseInst)))"
    proof -
      from extendAccessScopes_Accepted_scan[OF a] obtain m where
        sc: "scanAccessScopes aa f copySrc lastUseInst None
            (instsBetween f (instId copyInst) (instId lastUseInst)) = Accepted m"
        and f': "f' = (case m of None \<Rightarrow> f | Some e \<Rightarrow> moveAfter f e (instId lastUseInst))"
        by blast
      show ?thesis
      proof (cases m)
        case None
        with f' show ?thesis by simp
      next
        case (Some e)
        with f' have fe: "f' = moveAfter f e (instId lastUseInst)" by simp
        from sc Some scanAccessScopes_selected[of aa f copySrc lastUseInst None _ e]
        have e: "e \<in> set (instsBetween f (instId copyInst) (instId lastUseInst))"
          "\<exists>v. kind e = EndAccessInst v" "\<not> isTermInst (kind lastUseInst)"
          by auto
        have "instsAfter f' (instId lastUseInst)
            = e # instsAfter (eraseFromParent f (instId e)) (instId lastUseInst)"
          if "instId lastUseInst \<in> instId ` set (allInsts f)" "instId e \<noteq> instId lastUseInst"
          using that fe by (simp add: instsAfter_moveAfter)
        with e fe show ?thesis by blast
      qed
    qed
  qed
  have c3: "instsBetween f (instId copyInst) (instId lastUseInst) = pre @ e # rest
      \<and> scanAccessScopes aa f copySrc lastUseInst None pre = Accepted None
      \<and> (\<exists>v. kind e = EndAccessInst v)
      \<and> getBeginAccess f e = Some (s, AccessRead) \<and> \<not> isNoAlias aa copySrc s
      \<and> extendAccessScopes aa f copyInst copySrc lastUseInst = Accepted f'
    \<longrightarrow> f' = moveAfter f e (instId lastUseInst)
        \<and> \<not> isTermInst (kind lastUseInst)
        \<and> (\<forall>i \<in> set rest. \<forall>v. kind i \<noteq> EndAccessInst v)
        \<and> (instId lastUseInst \<in> instId ` set (allInsts f)
            \<and> instId e \<noteq> instId lastUseInst \<longrightarrow>
              instsAfter f' (instId lastUseInst)
                = e # instsAfter (eraseFromParent f (instId e)) (instId lastUseInst))"
  proof (rule impI)
    assume a: "instsBetween f (instId copyInst) (instId lastUseInst) = pre @ e # rest
        \<and> scanAccessScopes aa f copySrc lastUseInst None pre = Accepted None
        \<and> (\<exists>v. kind e = EndAccessInst v)
        \<and> getBeginAccess f e = Some (s, AccessRead) \<and> \<not> isNoAlias aa copySrc s
        \<and> extendAccessScopes aa f copyInst copySrc lastUseInst = Accepted f'"
    then have ex: "extendAccessScopes aa f copyInst copySrc lastUseInst = Accepted f'" by simp
    from extendAccessScopes_Accepted_scan[OF ex] obtain m where
      sc: "scanAccessScopes aa f copySrc lastUseInst None
          (instsBetween f (instId copyInst) (instId lastUseInst)) = Accepted m"
      and f': "f' = (case m of None \<Rightarrow> f | Some e \<Rightarrow> moveAfter f e (instId lastUseInst))"
      by blast
    from a have "scanAccessScopes aa f copySrc lastUseInst None (pre @ e # rest)
        = scanAccessScopes aa f copySrc lastUseInst None (e # rest)"
      by (simp add: scanAccessScopes_append)
    with sc a have se: "scanAccessScopes aa f copySrc lastUseInst None (e # rest) = Accepted m"
      by simp
    have nt: "\<not> isTermInst (kind lastUseInst)"
    proof
      assume "isTermInst (kind lastUseInst)"
      with a have "scanAccessScopes aa f copySrc lastUseInst None (e # rest) = Rejected" by auto
      with se show False by simp
    qed
    with a se have "scanAccessScopes aa f copySrc lastUseInst (Some e) rest = Accepted m" by auto
    from scanAccessScopes_keeps[OF this] have m: "m = Some e"
      and ne: "\<forall>i \<in> set rest. \<forall>v. kind i \<noteq> EndAccessInst v" by simp_all
    from f' m have fe: "f' = moveAfter f e (instId lastUseInst)" by simp
    have ia: "instId lastUseInst \<in> instId ` set (allInsts f) \<and> instId e \<noteq> instId lastUseInst \<longrightarrow>
        instsAfter f' (instId lastUseInst)
          = e # instsAfter (eraseFromParent f (instId e)) (instId lastUseInst)"
      using fe by (simp add: instsAfter_moveAfter)
    from fe nt ne ia
    show "f' = moveAfter f e (instId lastUseInst)
          \<and> \<not> isTermInst (kind lastUseInst)
          \<and> (\<forall>i \<in> set rest. \<forall>v. kind i \<noteq> EndAccessInst v)
          \<and> (instId lastUseInst \<in> instId ` set (allInsts f)
              \<and> instId e \<noteq> instId lastUseInst \<longrightarrow>
                instsAfter f' (instId lastUseInst)
                  = e # instsAfter (eraseFromParent f (instId e)) (instId lastUseInst))"
      by (intro conjI)
  qed
  have c4: "(\<forall>i \<in> set (instsBetween f (instId copyInst) (instId lastUseInst)).
          \<forall>v s. kind i = EndAccessInst v \<and> getBeginAccess f i = Some (s, AccessRead)
            \<longrightarrow> isNoAlias aa copySrc s)
      \<and> extendAccessScopes aa f copyInst copySrc lastUseInst = Accepted f'
    \<longrightarrow> f' = f"
  proof (rule impI)
    assume a: "(\<forall>i \<in> set (instsBetween f (instId copyInst) (instId lastUseInst)).
            \<forall>v s. kind i = EndAccessInst v \<and> getBeginAccess f i = Some (s, AccessRead)
              \<longrightarrow> isNoAlias aa copySrc s)
        \<and> extendAccessScopes aa f copyInst copySrc lastUseInst = Accepted f'"
    then have ex: "extendAccessScopes aa f copyInst copySrc lastUseInst = Accepted f'" by simp
    from extendAccessScopes_Accepted_scan[OF ex] obtain m where
      sc: "scanAccessScopes aa f copySrc lastUseInst None
          (instsBetween f (instId copyInst) (instId lastUseInst)) = Accepted m"
      and f': "f' = (case m of None \<Rightarrow> f | Some e \<Rightarrow> moveAfter f e (instId lastUseInst))"
      by blast
    show "f' = f"
    proof (cases m)
      case None
      with f' show ?thesis by simp
    next
      case (Some e)
      from sc Some have sc': "scanAccessScopes aa f copySrc lastUseInst None
          (instsBetween f (instId copyInst) (instId lastUseInst)) = Accepted (Some e)"
        by simp
      from scanAccessScopes_selected[OF sc']
      have "e \<in> set (instsBetween f (instId copyInst) (instId lastUseInst))"
        "\<exists>v. kind e = EndAccessInst v"
        "\<exists>s. getBeginAccess f e = Some (s, AccessRead) \<and> \<not> isNoAlias aa copySrc s"
        by simp_all
      then obtain v s where "e \<in> set (instsBetween f (instId copyInst) (instId lastUseInst))"
        "kind e = EndAccessInst v" "getBeginAccess f e = Some (s, AccessRead)"
        "\<not> isNoAlias aa copySrc s"
        by blast
      with a show ?thesis by blast
    qed
  qed
  have c5: "instsBetween f (instId copyInst) (instId lastUseInst) = pre @ e # rest
      \<and> scanAccessScopes aa f copySrc lastUseInst None pre = Accepted None
      \<and> (\<exists>v. kind e = EndAccessInst v)
      \<and> getBeginAccess f e = Some (s, AccessRead) \<and> \<not> isNoAlias aa copySrc s
      \<and> \<not> isTermInst (kind lastUseInst)
      \<and> (\<forall>i \<in> set rest. (\<forall>v. kind i \<noteq> EndAccessInst v) \<and> \<not> isBeginAccessInst (kind i)
            \<and> \<not> isBeginUnpairedAccessInst (kind i) \<and> \<not> mayWriteToMemory aa i s)
    \<longrightarrow> extendAccessScopes aa f copyInst copySrc lastUseInst
          = Accepted (moveAfter f e (instId lastUseInst))"
  proof (rule impI)
    assume a: "instsBetween f (instId copyInst) (instId lastUseInst) = pre @ e # rest
        \<and> scanAccessScopes aa f copySrc lastUseInst None pre = Accepted None
        \<and> (\<exists>v. kind e = EndAccessInst v)
        \<and> getBeginAccess f e = Some (s, AccessRead) \<and> \<not> isNoAlias aa copySrc s
        \<and> \<not> isTermInst (kind lastUseInst)
        \<and> (\<forall>i \<in> set rest. (\<forall>v. kind i \<noteq> EndAccessInst v) \<and> \<not> isBeginAccessInst (kind i)
              \<and> \<not> isBeginUnpairedAccessInst (kind i) \<and> \<not> mayWriteToMemory aa i s)"
    then have g: "getBeginAccess f e = Some (s, AccessRead)"
      and rs: "\<forall>i \<in> set rest. (\<forall>v. kind i \<noteq> EndAccessInst v) \<and> \<not> isBeginAccessInst (kind i)
              \<and> \<not> isBeginUnpairedAccessInst (kind i) \<and> \<not> mayWriteToMemory aa i s"
      by simp_all
    from scanAccessScopes_over_reads[OF g rs]
    have r: "scanAccessScopes aa f copySrc lastUseInst (Some e) rest = Accepted (Some e)" .
    from a have "scanAccessScopes aa f copySrc lastUseInst None (pre @ e # rest)
        = scanAccessScopes aa f copySrc lastUseInst None (e # rest)"
      by (simp add: scanAccessScopes_append)
    also from a r have "\<dots> = Accepted (Some e)" by auto
    finally show "extendAccessScopes aa f copyInst copySrc lastUseInst
            = Accepted (moveAfter f e (instId lastUseInst))"
      using a by (simp add: extendAccessScopes_def)
  qed
  have c6: "(\<forall>i \<in> set (instsBetween f (instId copyInst) (instId lastUseInst)).
        \<forall>v. kind i \<noteq> EndAccessInst v)
    \<longrightarrow> extendAccessScopes aa f copyInst copySrc lastUseInst = Accepted f"
    by (simp add: extendAccessScopes_def scanAccessScopes_no_end_access)
  show ?thesis
    by (intro conjI) (rule c1, rule c2, rule c3, rule c4, rule c5, rule c6)
qed


text \<open>
  In \<open>accessExample\<close> the end-access of \<open>%10\<close> is moved after the load; in
  \<open>nestedAccessExample\<close> the end-access of \<open>%13\<close> is a second one and the extension
  fails.
\<close>

theorem scope_extension_moves_one_end_access_witness:
  "extendAccessScopes mayAliasAnalyses nestedAccessExample accessCopy (InstResult 10)
     (mkInst 3 (LoadInst (InstResult 1) LoadCopy)) = Rejected
   \<and> extendAccessScopes mayAliasAnalyses accessExample accessCopy (InstResult 10)
     (mkInst 3 (LoadInst (InstResult 1) LoadCopy))
     = Accepted (moveAfter accessExample (mkInst 11 (EndAccessInst (InstResult 10))) 3)
   \<and> instsAfter (moveAfter accessExample (mkInst 11 (EndAccessInst (InstResult 10))) 3) 3
     = [mkInst 11 (EndAccessInst (InstResult 10)), mkInst 4 (DestroyAddrInst (InstResult 1)),
        mkInst 5 (DeallocStackInst (InstResult 1)), mkInst 6 (OtherInst [] True)]"
proof -
  let ?load = "mkInst 3 (LoadInst (InstResult 1) LoadCopy)"
  let ?e = "mkInst 11 (EndAccessInst (InstResult 10))"
  have h1: "instsBetween nestedAccessExample (instId accessCopy) (instId ?load)
        = [] @ ?e # [mkInst 12 (EndAccessInst (InstResult 13)), ?load]"
    by code_simp
  have h2: "getBeginAccess nestedAccessExample ?e = Some (srcArg, AccessRead)"
    by code_simp
  have h3: "\<not> isNoAlias mayAliasAnalyses (InstResult 10) srcArg"
    by (simp add: mayAliasAnalyses_def quietAnalyses_def)
  have h: "instsBetween nestedAccessExample (instId accessCopy) (instId ?load)
        = [] @ ?e # [mkInst 12 (EndAccessInst (InstResult 13)), ?load]
      \<and> scanAccessScopes mayAliasAnalyses nestedAccessExample (InstResult 10) ?load None []
        = Accepted None
      \<and> (\<exists>v. kind ?e = EndAccessInst v)
      \<and> getBeginAccess nestedAccessExample ?e = Some (srcArg, AccessRead)
      \<and> \<not> isNoAlias mayAliasAnalyses (InstResult 10) srcArg
      \<and> (isTermInst (kind ?load)
          \<or> (\<exists>i \<in> set [mkInst 12 (EndAccessInst (InstResult 13)), ?load].
                \<exists>v. kind i = EndAccessInst v))"
    using h1 h2 h3 by (simp add: mkInst_def)
  have a: "extendAccessScopes mayAliasAnalyses nestedAccessExample accessCopy (InstResult 10)
      ?load = Rejected"
    using scope_extension_moves_one_end_access[THEN conjunct1, rule_format, OF h] .
  have b: "extendAccessScopes mayAliasAnalyses accessExample accessCopy (InstResult 10) ?load
      = Accepted (moveAfter accessExample ?e 3)"
    by code_simp
  have g1: "instsBetween accessExample (instId accessCopy) (instId ?load) = [] @ ?e # [?load]"
    by code_simp
  have g2: "getBeginAccess accessExample ?e = Some (srcArg, AccessRead)"
    by code_simp
  have g: "instsBetween accessExample (instId accessCopy) (instId ?load) = [] @ ?e # [?load]
      \<and> scanAccessScopes mayAliasAnalyses accessExample (InstResult 10) ?load None []
        = Accepted None
      \<and> (\<exists>v. kind ?e = EndAccessInst v)
      \<and> getBeginAccess accessExample ?e = Some (srcArg, AccessRead)
      \<and> \<not> isNoAlias mayAliasAnalyses (InstResult 10) srcArg
      \<and> extendAccessScopes mayAliasAnalyses accessExample accessCopy (InstResult 10) ?load
          = Accepted (moveAfter accessExample ?e 3)"
    using g1 g2 h3 b by (simp add: mkInst_def)
  have i: "instId ?load \<in> instId ` set (allInsts accessExample) \<and> instId ?e \<noteq> instId ?load"
    by code_simp
  from scope_extension_moves_one_end_access[THEN conjunct2, THEN conjunct2, THEN conjunct1,
      rule_format, OF g]
  have "instId ?load \<in> instId ` set (allInsts accessExample) \<and> instId ?e \<noteq> instId ?load \<longrightarrow>
      instsAfter (moveAfter accessExample ?e 3) (instId ?load)
        = ?e # instsAfter (eraseFromParent accessExample (instId ?e)) (instId ?load)"
    by blast
  with i have "instsAfter (moveAfter accessExample ?e 3) (instId ?load)
        = ?e # instsAfter (eraseFromParent accessExample (instId ?e)) (instId ?load)"
    by blast
  moreover have "instsAfter (eraseFromParent accessExample (instId ?e)) (instId ?load)
      = [mkInst 4 (DestroyAddrInst (InstResult 1)),
         mkInst 5 (DeallocStackInst (InstResult 1)), mkInst 6 (OtherInst [] True)]"
    by code_simp
  moreover have "instId ?load = 3" by (simp add: mkInst_def)
  ultimately have c: "instsAfter (moveAfter accessExample ?e 3) 3
     = [?e, mkInst 4 (DestroyAddrInst (InstResult 1)),
        mkInst 5 (DeallocStackInst (InstResult 1)), mkInst 6 (OtherInst [] True)]"
    by simp
  from a b c show ?thesis by blast
qed

section \<open>Validating the destroy pattern\<close>

lemma scanForLastUse_frontier_irrelevant:
  "scanForLastUse (aa\<lparr>computeFrontier := g\<rparr>) src U k rest = scanForLastUse aa src U k rest"
  by (induction rest arbitrary: k) (auto simp: Let_def)

lemma scanAccessScopes_frontier_irrelevant:
  "scanAccessScopes (aa\<lparr>computeFrontier := g\<rparr>) f src lastUse m xs
     = scanAccessScopes aa f src lastUse m xs"
proof (induction xs arbitrary: m)
  case Nil
  then show ?case by simp
next
  case (Cons a xs)
  then show ?case by (cases "kind a") (auto split: option.splits)
qed

lemma getLastUse_frontier_irrelevant:
  "getLastUseWhileSourceIsNotModified f c src U (aa\<lparr>computeFrontier := g\<rparr>)
     = getLastUseWhileSourceIsNotModified f c src U aa"
  by (simp add: getLastUseWhileSourceIsNotModified_def scanForLastUse_frontier_irrelevant)

lemma extendAccessScopes_frontier_irrelevant:
  "extendAccessScopes (aa\<lparr>computeFrontier := g\<rparr>) f c src lastUse
     = extendAccessScopes aa f c src lastUse"
  by (simp add: extendAccessScopes_def scanAccessScopes_frontier_irrelevant)

lemma copyChecks_frontier_irrelevant:
  "hasOwnership f \<Longrightarrow>
   copyChecks (aa\<lparr>computeFrontier := g\<rparr>) f copyInst copySrc needFinalDeinit tempObj
     = copyChecks aa f copyInst copySrc needFinalDeinit tempObj"
  by (simp add: copyChecks_def getLastUse_frontier_irrelevant
      extendAccessScopes_frontier_irrelevant Let_def
      cong: check.case_cong option.case_cong if_cong)

lemma copyChecks_Accepted_validated:
  "\<not> hasOwnership f \<Longrightarrow> copyChecks aa f copyInst copySrc needFinalDeinit tempObj = Accepted r \<Longrightarrow>
   checkTempObjectDestroy aa f tempObj copyInst = Accepted ()"
  by (auto simp: copyChecks_def Let_def split: check.splits option.splits if_splits)

lemma checkFrontier_Accepted_iff:
  assumes "\<forall>p \<in> set fr. instsBefore f p \<noteq> [] \<longrightarrow>
             t \<in> set (operandsOf (kind (last (instsBefore f p))))"
  shows "checkFrontier f t fr = Accepted () \<longleftrightarrow>
     (\<forall>p \<in> set fr. instsBefore f p \<noteq> []
        \<and> (kind (last (instsBefore f p)) = DestroyAddrInst t
           \<or> (\<exists>dest isInit. kind (last (instsBefore f p)) = CopyAddrInst t dest True isInit)))"
  using assms
proof (induction fr)
  case Nil
  then show ?case by simp
next
  case (Cons p fr)
  show ?case
  proof (cases "instsBefore f p")
    case Nil
    then show ?thesis by simp
  next
    case (Cons x xs)
    then have r: "rev (instsBefore f p) = last (instsBefore f p) # rev (butlast (instsBefore f p))"
      by (metis list.distinct(1) rev.simps(2) rev_rev_ident snoc_eq_iff_butlast)
    from Cons Cons.prems have t: "t \<in> set (operandsOf (kind (last (instsBefore f p))))"
      by simp
    from Cons.prems Cons.IH
    have ih: "checkFrontier f t fr = Accepted () \<longleftrightarrow>
     (\<forall>p \<in> set fr. instsBefore f p \<noteq> []
        \<and> (kind (last (instsBefore f p)) = DestroyAddrInst t
           \<or> (\<exists>dest isInit. kind (last (instsBefore f p)) = CopyAddrInst t dest True isInit)))"
      by simp
    show ?thesis
      using t ih Cons unfolding checkFrontier.simps r
      by (cases "kind (last (instsBefore f p))") auto
  qed
qed

text \<open>
  Claim C6. Under ownership the rewriter does not consult the validator: its result
  does not depend on what \<open>computeFrontier\<close> answers. Without ownership the checks are
  passed only when the validator accepts. The validator rejects when the frontier
  cannot be computed. When it is computed, and every frontier point that is not at
  the start of its block directly follows an instruction with the temporary among its
  operands (the frontier of the temporary's users and its initializer), the validator
  accepts exactly when every frontier point is not at the start of its block and
  directly follows a destroy-address of the temporary or a copy-address that reads the
  temporary and takes it.
\<close>

theorem destroy_pattern_validator_accepts_iff:
  "(hasOwnership f \<longrightarrow>
      tryOptimizeCopyIntoTemp (aa\<lparr>computeFrontier := g\<rparr>) f copyInst
        = tryOptimizeCopyIntoTemp aa f copyInst)
   \<and> (\<not> hasOwnership f
       \<and> copyChecks aa f copyInst copySrc needFinalDeinit tempObj = Accepted r \<longrightarrow>
      checkTempObjectDestroy aa f tempObj copyInst = Accepted ())
   \<and> (computeFrontier aa f copyInst (tempObjUsers f tempObj copyInst) = None \<longrightarrow>
      checkTempObjectDestroy aa f tempObj copyInst = Rejected)
   \<and> (computeFrontier aa f copyInst (tempObjUsers f tempObj copyInst) = Some frontier
       \<and> (\<forall>p \<in> set frontier. instsBefore f p \<noteq> [] \<longrightarrow>
             InstResult (instId tempObj) \<in> set (operandsOf (kind (last (instsBefore f p))))) \<longrightarrow>
      (checkTempObjectDestroy aa f tempObj copyInst = Accepted () \<longleftrightarrow>
         (\<forall>p \<in> set frontier. instsBefore f p \<noteq> []
            \<and> (kind (last (instsBefore f p)) = DestroyAddrInst (InstResult (instId tempObj))
               \<or> (\<exists>dest isInit. kind (last (instsBefore f p))
                     = CopyAddrInst (InstResult (instId tempObj)) dest True isInit)))))"
proof (intro conjI impI)
  assume "hasOwnership f"
  then show "tryOptimizeCopyIntoTemp (aa\<lparr>computeFrontier := g\<rparr>) f copyInst
        = tryOptimizeCopyIntoTemp aa f copyInst"
    by (simp add: tryOptimizeCopyIntoTemp_def copyChecks_frontier_irrelevant
        lexicalGuardFails_def
        cong: inst_kind.case_cong option.case_cong if_cong)
next
  assume "\<not> hasOwnership f
       \<and> copyChecks aa f copyInst copySrc needFinalDeinit tempObj = Accepted r"
  then show "checkTempObjectDestroy aa f tempObj copyInst = Accepted ()"
    by (blast intro: copyChecks_Accepted_validated)
next
  assume "computeFrontier aa f copyInst (tempObjUsers f tempObj copyInst) = None"
  then show "checkTempObjectDestroy aa f tempObj copyInst = Rejected"
    by (simp add: checkTempObjectDestroy_def)
next
  assume a: "computeFrontier aa f copyInst (tempObjUsers f tempObj copyInst) = Some frontier
       \<and> (\<forall>p \<in> set frontier. instsBefore f p \<noteq> [] \<longrightarrow>
             InstResult (instId tempObj) \<in> set (operandsOf (kind (last (instsBefore f p)))))"
  then have "checkTempObjectDestroy aa f tempObj copyInst
      = checkFrontier f (InstResult (instId tempObj)) frontier"
    by (simp add: checkTempObjectDestroy_def)
  with a checkFrontier_Accepted_iff[of frontier f "InstResult (instId tempObj)"]
  show "checkTempObjectDestroy aa f tempObj copyInst = Accepted () \<longleftrightarrow>
         (\<forall>p \<in> set frontier. instsBefore f p \<noteq> []
            \<and> (kind (last (instsBefore f p)) = DestroyAddrInst (InstResult (instId tempObj))
               \<or> (\<exists>dest isInit. kind (last (instsBefore f p))
                     = CopyAddrInst (InstResult (instId tempObj)) dest True isInit)))"
    by simp
qed

text \<open>
  \<open>splitExample\<close> without ownership: the frontier of the temporary is the deallocation
  \<open>6\<close>, which follows the destroy-address \<open>5\<close> of the temporary. The validator accepts
  and the rewrite is done.
\<close>

theorem destroy_pattern_validator_accepts_iff_witness:
  "checkTempObjectDestroy (frontierAnalyses [6]) (splitExample False False)
     (mkInst 1 (AllocStackInst False False False)) (copyOf False) = Accepted ()
   \<and> checkTempObjectDestroy (frontierAnalyses [5]) (splitExample False False)
     (mkInst 1 (AllocStackInst False False False)) (copyOf False) = Rejected
   \<and> tryOptimizeCopyIntoTemp (frontierAnalyses [6]) (splitExample False False) (copyOf False)
     = Some \<lparr>blocks = [[mkInst 2 (CopyAddrInst srcArg srcArg False True),
                        mkInst 3 (LoadInst srcArg LoadCopy),
                        mkInst 4 (BranchInst [])],
                       [mkInst 7 (OtherInst [] True)]],
             hasOwnership = False\<rparr>"
proof -
  let ?f = "splitExample False False"
  let ?t = "mkInst 1 (AllocStackInst False False False)"
  have b6: "instsBefore ?f 6 = [mkInst 5 (DestroyAddrInst (InstResult 1))]"
    by code_simp
  have h: "computeFrontier (frontierAnalyses [6]) ?f (copyOf False)
        (tempObjUsers ?f ?t (copyOf False)) = Some [6]
      \<and> (\<forall>p \<in> set [6]. instsBefore ?f p \<noteq> [] \<longrightarrow>
            InstResult (instId ?t) \<in> set (operandsOf (kind (last (instsBefore ?f p)))))"
    by (simp add: b6 frontierAnalyses_def mkInst_def)
  have g: "\<forall>p \<in> set [6]. instsBefore ?f p \<noteq> []
      \<and> (kind (last (instsBefore ?f p)) = DestroyAddrInst (InstResult (instId ?t))
         \<or> (\<exists>dest isInit. kind (last (instsBefore ?f p))
               = CopyAddrInst (InstResult (instId ?t)) dest True isInit))"
    by (simp add: b6 mkInst_def)
  from destroy_pattern_validator_accepts_iff[THEN conjunct2, THEN conjunct2, THEN conjunct2,
      rule_format, OF h] g
  have a: "checkTempObjectDestroy (frontierAnalyses [6]) ?f ?t (copyOf False) = Accepted ()"
    by blast
  have b: "checkTempObjectDestroy (frontierAnalyses [5]) ?f ?t (copyOf False) = Rejected"
    by code_simp
  have c: "tryOptimizeCopyIntoTemp (frontierAnalyses [6]) ?f (copyOf False)
     = Some \<lparr>blocks = [[mkInst 2 (CopyAddrInst srcArg srcArg False True),
                        mkInst 3 (LoadInst srcArg LoadCopy),
                        mkInst 4 (BranchInst [])],
                       [mkInst 7 (OtherInst [] True)]],
             hasOwnership = False\<rparr>"
    by code_simp
  from a b c show ?thesis by blast
qed

section \<open>The commit in closed form\<close>

text \<open>
  What section 4.5 of the specification says the commit does to the uses of the
  temporary, written per instruction: a destroy-address or deallocate-stack on the
  temporary is erased (\<open>erasedUser\<close>); a take-copy or take-load on the temporary becomes
  its non-consuming form unless it is the boundary of a copy that took its source
  (\<open>nonConsumingForm\<close>); every operand holding the temporary holds the source afterwards
  (\<open>redirectedUser\<close>). \<open>redirectAllUses\<close> does this to every instruction of the function.
  The loop of the source is shown below to compute exactly this.
\<close>

definition nonConsumingForm :: "inst_id \<Rightarrow> bool \<Rightarrow> inst_id \<Rightarrow> inst \<Rightarrow> inst" where
  "nonConsumingForm copyInst needFinalDeinit lastLoadInst i =
     (case kind i of
        CopyAddrInst src dest isTakeOfSrc isInit \<Rightarrow>
          if instId i \<noteq> copyInst \<and> isTakeOfSrc \<and> (\<not> needFinalDeinit \<or> lastLoadInst \<noteq> instId i)
          then i\<lparr>kind := CopyAddrInst src dest False isInit\<rparr> else i
      | LoadInst address qualifier \<Rightarrow>
          if qualifier = LoadTake \<and> (\<not> needFinalDeinit \<or> instId i \<noteq> lastLoadInst)
          then i\<lparr>kind := LoadInst address LoadCopy\<rparr> else i
      | _ \<Rightarrow> i)"

definition redirectedUser ::
  "sil_value \<Rightarrow> sil_value \<Rightarrow> inst_id \<Rightarrow> bool \<Rightarrow> inst_id \<Rightarrow> inst \<Rightarrow> inst" where
  "redirectedUser tempObj copySrc copyInst needFinalDeinit lastLoadInst i =
     (if tempObj \<in> set (allOperands i)
      then substOperands tempObj copySrc (nonConsumingForm copyInst needFinalDeinit lastLoadInst i)
      else i)"

definition erasedUser :: "sil_value \<Rightarrow> inst \<Rightarrow> bool" where
  "erasedUser tempObj i =
     (tempObj \<in> set (allOperands i) \<and> (isDestroyAddrInst (kind i) \<or> isDeallocStackInst (kind i)))"


lemma withOperands_operandsOf [simp]: "withOperands k (operandsOf k) = k"
  by (cases k) (auto simp: zip_map_fst_snd)









lemma allOperands_nonConsumingForm [simp]:
  "allOperands (nonConsumingForm c need l i) = allOperands i"
  by (cases "kind i") (auto simp: nonConsumingForm_def allOperands_def)

lemma instId_nonConsumingForm [simp]: "instId (nonConsumingForm c need l i) = instId i"
  by (cases "kind i") (auto simp: nonConsumingForm_def)

lemma instId_setOperandOf [simp]: "instId (setOperandOf i n s) = instId i"
  by (simp add: setOperandOf_def Let_def)










text \<open>What one turn of the commit loop does to the instructions that have the user's identity.\<close>

definition commitStep :: "inst \<Rightarrow> inst_id \<Rightarrow> bool \<Rightarrow> inst_id \<Rightarrow> nat \<Rightarrow> sil_value \<Rightarrow> inst \<Rightarrow> inst" where
  "commitStep user c need l n s x =
     setOperandOf
       (case kind user of
          CopyAddrInst _ _ isTakeOfSrc _ \<Rightarrow>
            if instId user \<noteq> c \<and> isTakeOfSrc \<and> (\<not> need \<or> l \<noteq> instId user)
            then x\<lparr>kind := setIsTakeOfSrcOf False (kind x)\<rparr> else x
        | LoadInst _ qualifier \<Rightarrow>
            if qualifier = LoadTake \<and> (\<not> need \<or> instId user \<noteq> l)
            then x\<lparr>kind := setOwnershipQualifierOf LoadCopy (kind x)\<rparr> else x
        | _ \<Rightarrow> x) n s"

lemma updateInst_updateInst:
  "(\<And>x. instId (g1 x) = instId x) \<Longrightarrow>
   updateInst (updateInst f i g1) i g2 = updateInst f i (\<lambda>x. g2 (g1 x))"
  by (simp add: updateInst_def comp_def cong: if_cong)

lemma replaceTempUses_step:
  assumes "getUses f t = use # list" "s \<noteq> t"
  shows "replaceTempUses f t s c need l =
     (if isDestroyAddrInst (kind (opUser use)) \<or> isDeallocStackInst (kind (opUser use))
      then replaceTempUses (eraseFromParent f (instId (opUser use))) t s c need l
      else if (\<exists>src dest tk ini. kind (opUser use) = CopyAddrInst src dest tk ini
                \<and> instId (opUser use) \<noteq> c \<and> src \<noteq> t)
      then None
      else replaceTempUses
             (updateInst f (instId (opUser use)) (commitStep (opUser use) c need l (opNumber use) s))
             t s c need l)"
  apply (subst replaceTempUses.simps)
  apply (cases "kind (opUser use)")
  using assms
  apply (auto simp add: Let_def setOperand_def setIsTakeOfSrc_def setOwnershipQualifier_def
        updateInst_updateInst commitStep_def [abs_def])
  done

lemma commitStep_user:
  "commitStep user c need l n s user = setOperandOf (nonConsumingForm c need l user) n s"
  by (cases "kind user") (auto simp: commitStep_def nonConsumingForm_def)

lemma instId_commitStep [simp]: "instId (commitStep user c need l n s x) = instId x"
  by (cases "kind user") (auto simp: commitStep_def)

lemma useCount_commitStep_le:
  "s \<noteq> t \<Longrightarrow> useCount t (commitStep user c need l n s y) \<le> useCount t y"
  by (cases "kind user")
     (auto simp: commitStep_def useCount_def allOperands_setOperandOf count_update_le
           intro: order_trans[OF count_update_le])


lemma isDestroy_setOperandOf [simp]:
  "isDestroyAddrInst (kind (setOperandOf i n s)) = isDestroyAddrInst (kind i)"
  "isDeallocStackInst (kind (setOperandOf i n s)) = isDeallocStackInst (kind i)"
  by (cases "kind i"; simp add: setOperandOf_def Let_def)+

lemma isDestroy_nonConsumingForm [simp]:
  "isDestroyAddrInst (kind (nonConsumingForm c need l i)) = isDestroyAddrInst (kind i)"
  "isDeallocStackInst (kind (nonConsumingForm c need l i)) = isDeallocStackInst (kind i)"
  by (cases "kind i"; simp add: nonConsumingForm_def)+


lemma replaceTempUses_no_uses:
  "replaceTempUses f t s c need l = Some f' \<Longrightarrow> getUses f' t = []"
proof (induction "length (getUses f t)" arbitrary: f rule: less_induct)
  case less
  show ?case
  proof (cases "getUses f t")
    case Nil
    with less.prems have "f' = f" by (subst (asm) replaceTempUses.simps) simp
    with Nil show ?thesis by simp
  next
    case (Cons use list)
    have st: "s \<noteq> t"
      using less.prems Cons by (subst (asm) replaceTempUses.simps) (auto split: if_splits)
    let ?user = "opUser use" and ?n = "opNumber use"
    from Cons have "use \<in> set (getUses f t)" by simp
    then have u: "?user \<in> set (allInsts f)" "?n < length (allOperands ?user)"
      "allOperands ?user ! ?n = t"
      by (auto simp: in_getUses)
    note step = replaceTempUses_step[OF Cons st, of c need l]
    show ?thesis
    proof (cases "isDestroyAddrInst (kind ?user) \<or> isDeallocStackInst (kind ?user)")
      case True
      let ?f1 = "eraseFromParent f (instId ?user)"
      have r: "replaceTempUses ?f1 t s c need l = Some f'"
        using step True less.prems by simp
      have m: "length (getUses ?f1 t) < length (getUses f t)"
        using replace_step_erase[OF Cons] Cons by simp
      from less.hyps[OF m r] show ?thesis .
    next
      case False
      let ?g = "commitStep ?user c need l ?n s"
      let ?f1 = "updateInst f (instId ?user) ?g"
      have r: "replaceTempUses ?f1 t s c need l = Some f'"
        using step False less.prems by (auto split: if_splits)
      have gu: "?g ?user = setOperandOf (nonConsumingForm c need l ?user) ?n s"
        by (rule commitStep_user)
      have "useCount t (?g ?user) < useCount t ?user"
        using u st by (simp add: gu useCount_def allOperands_setOperandOf count_update_less)
      then have m: "length (getUses ?f1 t) < length (getUses f t)"
        using u(1) st by (intro getUses_updateInst_less[where x = ?user])
          (simp_all add: useCount_commitStep_le)
      from less.hyps[OF m r] show ?thesis .
    qed
  qed
qed


section \<open>Loads in the store rewrite\<close>











section \<open>The committed rewrite as a whole\<close>



























lemma instId_substOperands [simp]: "instId (substOperands t s i) = instId i"
  by (simp add: substOperands_def)

lemma instId_redirectedUser [simp]: "instId (redirectedUser t s c need l i) = instId i"
  by (simp add: redirectedUser_def)










section \<open>The initializing copy after the commit\<close>








section \<open>Destroys of the source after the commit\<close>





text \<open>
  The block of the result that comes from a block \<open>b\<close>: the instructions of \<open>b\<close> in their
  order, without the destroys and deallocations of the temporary and without its
  allocation, each with the temporary replaced by the source as in the closed form of
  the commit.
\<close>

definition committedBlock ::
  "sil_value \<Rightarrow> sil_value \<Rightarrow> inst_id \<Rightarrow> bool \<Rightarrow> inst_id \<Rightarrow> inst_id \<Rightarrow> inst list \<Rightarrow> inst list" where
  "committedBlock tempObj copySrc copyInst needFinalDeinit lastLoadInst alloc b =
     map (redirectedUser tempObj copySrc copyInst needFinalDeinit lastLoadInst)
       (filter (\<lambda>i. \<not> erasedUser tempObj i \<and> instId i \<noteq> alloc) b)"
















lemma committedBlock_append:
  "committedBlock t s c need l a (xs @ ys)
     = committedBlock t s c need l a xs @ committedBlock t s c need l a ys"
  by (simp add: committedBlock_def)

lemma ids_committedBlock:
  "instId ` set (committedBlock t s c need l a b) \<subseteq> instId ` set b"
  by (auto simp: committedBlock_def)















end
